theory Spec2Isabelle
  imports Complex_Main
begin

section \<open>Arrays, slices and errors\<close>

text \<open>
  The executor of \<^verbatim>\<open>chunkflow/executor.py\<close> works on numpy arrays in z,y,x order (with a
  leading channel axis for the output). An array is a nested list here, outermost axis
  first; numpy arrays are rectangular, which \<open>has_shape3\<close> and \<open>has_shape4\<close> say.
  Image and mask voxels are unsigned integers (\<open>nat\<close>), output voxels are floating point
  numbers, taken as \<open>real\<close>: rounding, infinities and NaN are outside the model.
\<close>

datatype py_error =
    IndexError | ValueError | TypeError | AssertionError | AttributeError
  | StoreError string

type_synonym 'a arr3 = "'a list list list"
type_synonym 'a arr4 = "'a list list list list"

definition has_shape3 :: "nat \<times> nat \<times> nat \<Rightarrow> 'a arr3 \<Rightarrow> bool" where
  "has_shape3 sh a = (case sh of (d, h, w) \<Rightarrow>
     length a = d \<and> list_all (\<lambda>pl. length pl = h \<and> list_all (\<lambda>row. length row = w) pl) a)"

definition has_shape4 :: "nat \<times> nat \<times> nat \<times> nat \<Rightarrow> 'a arr4 \<Rightarrow> bool" where
  "has_shape4 sh a = (case sh of (c, sh3) \<Rightarrow>
     length a = c \<and> list_all (has_shape3 sh3) a)"

text \<open>The extents of a non-empty rectangular array, read off its first elements.\<close>

definition shape3 :: "'a arr3 \<Rightarrow> nat \<times> nat \<times> nat" where
  "shape3 a = (length a,
     (case a of [] \<Rightarrow> 0 | pl # _ \<Rightarrow> length pl),
     (case a of (row # _) # _ \<Rightarrow> length row | _ \<Rightarrow> 0))"

definition zeros3 :: "nat \<times> nat \<times> nat \<Rightarrow> 'a::zero arr3" where
  "zeros3 sh = (case sh of (d, h, w) \<Rightarrow> replicate d (replicate h (replicate w 0)))"

text \<open>\<^verbatim>\<open>np.all(a)\<close> and \<^verbatim>\<open>np.any(a)\<close>: every, respectively some, element is nonzero.\<close>

definition np_all3 :: "'a::zero arr3 \<Rightarrow> bool" where
  "np_all3 a = list_all (list_all (list_all (\<lambda>v. v \<noteq> 0))) a"

definition np_any3 :: "'a::zero arr3 \<Rightarrow> bool" where
  "np_any3 a = list_ex (list_ex (list_ex (\<lambda>v. v \<noteq> 0))) a"

definition np_any4 :: "'a::zero arr4 \<Rightarrow> bool" where
  "np_any4 a = list_ex np_any3 a"

text \<open>
  A Python slice \<^verbatim>\<open>xs[a:b]\<close> with step 1: a negative bound counts from the end, and
  both bounds are clipped to the length.
\<close>

definition norm_index :: "int \<Rightarrow> nat \<Rightarrow> nat" where
  "norm_index i n = (if i < 0 then nat (max (i + int n) 0) else min (nat i) n)"

definition py_slice :: "int \<Rightarrow> int \<Rightarrow> 'a list \<Rightarrow> 'a list" where
  "py_slice a b xs =
     (let lo = norm_index a (length xs); hi = norm_index b (length xs)
      in take (hi - lo) (drop lo xs))"

text \<open>
  \<^verbatim>\<open>OffsetArray\<close>: an array with the global coordinate of its element \<open>[0,0,0]\<close>.
\<close>

record 'a offset_array =
  arr :: "'a arr3"
  global_offset :: "int \<times> int \<times> int"

text \<open>
  Modelled from the spec: \<^verbatim>\<open>OffsetArray.slices\<close> (\<^verbatim>\<open>chunkflow/offset_array.py\<close> is not
  among the sources). The global bounding box of the array is its global offset plus
  its shape; \<open>zslice\<close> is the first of its slices, as \<open>(start, stop)\<close>.
\<close>

definition OffsetArray :: "'a arr3 \<Rightarrow> int \<times> int \<times> int \<Rightarrow> 'a offset_array" where
  "OffsetArray a off = \<lparr>arr = a, global_offset = off\<rparr>"

definition zslice :: "'a offset_array \<Rightarrow> int \<times> int" where
  "zslice img = (case global_offset img of (oz, oy, ox) \<Rightarrow> (oz, oz + int (length (arr img))))"

section \<open>Masking the missing sections\<close>

text \<open>
  \<^verbatim>\<open>self.image[k, :, :] = 0\<close>: an integer index on the first axis, negative indices
  counting from the end, IndexError out of range.
\<close>

definition zero_section :: "int \<Rightarrow> nat arr3 \<Rightarrow> py_error + nat arr3" where
  "zero_section k a =
     (let n = int (length a); j = (if k < 0 then k + n else k)
      in if 0 \<le> j \<and> j < n
         then Inr (a[nat j := map (map (\<lambda>_. 0)) (a ! nat j)])
         else Inl IndexError)"

text \<open>
  The loop of \<^verbatim>\<open>_mask_missing_sections\<close> over the section ids:
  \<^verbatim>\<open>
  for z in missing_section_ids:
      if z > stop:
          break
      elif z >= start and z <= stop:
          self.image[z - self.image.global_offset[0], :, :] = 0
  \<close>
\<close>

fun mask_sections_loop :: "int \<Rightarrow> int \<Rightarrow> int \<Rightarrow> int list \<Rightarrow> nat arr3 \<Rightarrow> py_error + nat arr3" where
  "mask_sections_loop start stop oz [] a = Inr a"
| "mask_sections_loop start stop oz (z # zs) a =
     (if z > stop then Inr a
      else if z \<ge> start \<and> z \<le> stop then
        (case zero_section (z - oz) a of
           Inl e \<Rightarrow> Inl e
         | Inr a' \<Rightarrow> mask_sections_loop start stop oz zs a')
      else mask_sections_loop start stop oz zs a)"

text \<open>
  \<^verbatim>\<open>_mask_missing_sections\<close>. The file name is tested for truth (\<open>None\<close> and the empty
  string skip the stage); \<open>ids\<close> is what \<^verbatim>\<open>np.loadtxt\<close> reads from the file, a
  one-dimensional array of integers (a file of a single id, which it reads as an array of
  no dimension, is not covered).
\<close>

definition mask_missing_sections ::
  "string option \<Rightarrow> int list \<Rightarrow> nat offset_array \<Rightarrow> py_error + nat offset_array" where
  "mask_missing_sections file_name ids img =
     (if file_name = None \<or> file_name = Some [] then Inr img
      else case zslice img of (start, stop) \<Rightarrow>
        (case mask_sections_loop start stop (fst (global_offset img)) ids (arr img) of
           Inl e \<Rightarrow> Inl e
         | Inr a \<Rightarrow> Inr (img\<lparr>arr := a\<rparr>)))"

section \<open>Cropping the margin\<close>

text \<open>
  \<^verbatim>\<open>_crop\<close>: \<^verbatim>\<open>output[:, m0:shape[1]-m0, m1:shape[2]-m1, m2:shape[3]-m2]\<close>.
\<close>

definition crop :: "int \<times> int \<times> int \<Rightarrow> 'a arr4 \<Rightarrow> 'a arr4" where
  "crop m out = (case m of (m0, m1, m2) \<Rightarrow>
     map (\<lambda>ch.
       map (\<lambda>pl.
         map (\<lambda>row. py_slice m2 (int (length row) - m2) row)
           (py_slice m1 (int (length pl) - m1) pl))
         (py_slice m0 (int (length ch) - m0) ch)) out)"

section \<open>Applying the output mask\<close>

definition tabulate3 :: "nat \<times> nat \<times> nat \<Rightarrow> (nat \<Rightarrow> nat \<Rightarrow> nat \<Rightarrow> 'a) \<Rightarrow> 'a arr3" where
  "tabulate3 sh g = (case sh of (d, h, w) \<Rightarrow>
     map (\<lambda>z. map (\<lambda>y. map (\<lambda>x. g z y x) [0..<w]) [0..<h]) [0..<d])"

text \<open>The number of indices \<open>off, off + f, off + 2 f, ...\<close> below \<open>n\<close>: the length of \<^verbatim>\<open>np.s_[off::f]\<close>.\<close>

definition strided_len :: "nat \<Rightarrow> nat \<Rightarrow> nat \<Rightarrow> nat" where
  "strided_len n off f = (if off < n then (n - off + f - 1) div f else 0)"

text \<open>
  Broadcasting a value of extent \<open>v\<close> to a target of extent \<open>t\<close> along one axis: the
  extents agree or the value has extent one, and then its only element is repeated.
\<close>

definition broadcastable :: "nat \<Rightarrow> nat \<Rightarrow> bool" where
  "broadcastable v t = (v = t \<or> v = 1)"

definition bidx :: "nat \<Rightarrow> nat \<Rightarrow> nat" where
  "bidx v i = (if v = 1 then 0 else i)"

text \<open>
  \<^verbatim>\<open>mask[:, np.s_[o0::f], np.s_[o1::f]] = output_mask\<close>: the assignment broadcasts the
  value to the strided view, and raises ValueError when it cannot.
\<close>

definition assign_strided :: "nat \<Rightarrow> nat \<Rightarrow> nat \<Rightarrow> 'a arr3 \<Rightarrow> 'a arr3 \<Rightarrow> py_error + 'a arr3" where
  "assign_strided f o0 o1 val tgt =
     (case shape3 tgt of (d, h, w) \<Rightarrow>
      case shape3 val of (dm, hm, wm) \<Rightarrow>
        if broadcastable dm d \<and> broadcastable hm (strided_len h o0 f)
           \<and> broadcastable wm (strided_len w o1 f)
        then Inr (tabulate3 (d, h, w) (\<lambda>z y x.
               if o0 \<le> y \<and> (y - o0) mod f = 0 \<and> o1 \<le> x \<and> (x - o1) mod f = 0
               then val ! bidx dm z ! bidx hm ((y - o0) div f) ! bidx wm ((x - o1) div f)
               else tgt ! z ! y ! x))
        else Inl ValueError)"

text \<open>
  The loop \<^verbatim>\<open>for offset in np.ndindex((xyfactor, xyfactor))\<close> over the offsets in row-major
  order.
\<close>

fun upsample_loop :: "nat \<Rightarrow> (nat \<times> nat) list \<Rightarrow> 'a arr3 \<Rightarrow> 'a arr3 \<Rightarrow> py_error + 'a arr3" where
  "upsample_loop f [] val msk = Inr msk"
| "upsample_loop f ((o0, o1) # offs) val msk =
     (case assign_strided f o0 o1 val msk of
        Inl e \<Rightarrow> Inl e
      | Inr msk' \<Rightarrow> upsample_loop f offs val msk')"

definition upsample_mask :: "nat \<Rightarrow> nat arr3 \<Rightarrow> nat \<times> nat \<times> nat \<Rightarrow> py_error + nat arr3" where
  "upsample_mask f output_mask sh =
     upsample_loop f (List.product [0..<f] [0..<f]) output_mask (zeros3 sh)"

text \<open>\<^verbatim>\<open>np.multiply(self.output[c, :, :, :], mask, out=self.output[c, :, :, :])\<close>.\<close>

definition mul3 :: "real arr3 \<Rightarrow> nat arr3 \<Rightarrow> real arr3" where
  "mul3 a m = map2 (map2 (map2 (\<lambda>v k. v * real k))) a m"

definition multiply_channel :: "nat \<Rightarrow> nat arr3 \<Rightarrow> real arr4 \<Rightarrow> py_error + real arr4" where
  "multiply_channel c msk out =
     (if c < length out then Inr (out[c := mul3 (out ! c) msk]) else Inl IndexError)"

text \<open>
  \<^verbatim>\<open>_mask_output\<close>, on the coarse mask, the factor \<^verbatim>\<open>self.xyfactor\<close> and the output. The
  result is the new output with the lines the stage prints. The factor is
  \<^verbatim>\<open>2**(output_mask_mip - output_mip)\<close>, a Python float when the exponent is negative,
  which is \<open>None\<close> here: \<^verbatim>\<open>np.ndindex\<close> takes integers only.
\<close>

definition mask_output ::
  "nat option \<Rightarrow> nat arr3 \<Rightarrow> real arr4 \<Rightarrow> py_error + (string list \<times> real arr4)" where
  "mask_output xyfactor output_mask output =
     (if np_all3 output_mask then
        Inr ([''mask elements are all positive, return directly''], output)
      else if \<not> np_any4 output then
        Inr ([''output volume is all black, return directly''], output)
      else if \<not> np_any3 output_mask then Inl AssertionError
      else case xyfactor of
        None \<Rightarrow> Inl TypeError
      | Some f \<Rightarrow>
        (case upsample_mask f output_mask (case output of [] \<Rightarrow> (0, 0, 0) | ch # _ \<Rightarrow> shape3 ch) of
           Inl e \<Rightarrow> Inl e
         | Inr msk \<Rightarrow>
           (case multiply_channel 0 msk output of
              Inl e \<Rightarrow> Inl e
            | Inr out0 \<Rightarrow>
              (case multiply_channel 1 msk out0 of
                 Inl e \<Rightarrow> Inl e
               | Inr out1 \<Rightarrow>
                 (case multiply_channel 2 msk out1 of
                    Inl e \<Rightarrow> Inl e
                  | Inr out2 \<Rightarrow>
                    if np_any4 out2
                    then Inr ([''perform masking ...'', ''upsampling mask ...''], out2)
                    else Inl AssertionError)))))"

section \<open>Validating the image\<close>

text \<open>
  The loop of \<^verbatim>\<open>_validate_image\<close> that downsamples the clamped image:
  \<^verbatim>\<open>
  for _ in range(self.image_validate_mip - self.image_mip):
      clamped_image = downsample_with_averaging(
          clamped_image, np.array([2, 2, 1], dtype=np.int32))
  \<close>
  \<^verbatim>\<open>downsample_with_averaging\<close> (\<^verbatim>\<open>chunkflow/igneous/downsample.py\<close>) is not among the
  sources and is a parameter; \<open>range\<close> of a negative number is empty.
\<close>

fun downsample_range :: "('img \<Rightarrow> nat \<times> nat \<times> nat \<Rightarrow> 'img) \<Rightarrow> nat \<Rightarrow> 'img \<Rightarrow> 'img" where
  "downsample_range ds 0 img = img"
| "downsample_range ds (Suc n) img = downsample_range ds n (ds img (2, 2, 1))"

definition downsample_to_mip ::
  "('img \<Rightarrow> nat \<times> nat \<times> nat \<Rightarrow> 'img) \<Rightarrow> int \<Rightarrow> int \<Rightarrow> 'img \<Rightarrow> 'img" where
  "downsample_to_mip ds image_mip image_validate_mip img =
     downsample_range ds (nat (image_validate_mip - image_mip)) img"

text \<open>
  Modelled from the spec: \<^verbatim>\<open>downsample_with_averaging\<close>, the box-average downsample by an
  integer factor per axis. The output has the extents of the input divided by the factors
  and rounded up; each of its voxels is the sum of the input voxels of its box, integer
  divided by their number (the boxes at the upper ends may be cut short).
\<close>

definition cdiv :: "nat \<Rightarrow> nat \<Rightarrow> nat" where
  "cdiv n f = (n + f - 1) div f"

definition box :: "nat \<Rightarrow> nat \<Rightarrow> nat \<Rightarrow> nat list" where
  "box i f n = [i * f ..< min (Suc i * f) n]"

definition box_average :: "nat arr3 \<Rightarrow> nat \<times> nat \<times> nat \<Rightarrow> nat arr3" where
  "box_average a fac =
     (case fac of (f0, f1, f2) \<Rightarrow>
      case shape3 a of (n0, n1, n2) \<Rightarrow>
        tabulate3 (cdiv n0 f0, cdiv n1 f1, cdiv n2 f2) (\<lambda>i j k.
          let vals = concat (map (\<lambda>x. concat (map (\<lambda>y. map (\<lambda>z. a ! x ! y ! z) (box k f2 n2))
                                      (box j f1 n1))) (box i f0 n0))
          in sum_list vals div length vals))"

text \<open>
  The clamping of \<^verbatim>\<open>_validate_image\<close>, per axis. \<^verbatim>\<open>factor3\<close> is an int32 array: a negative
  exponent gives a float below one, which the conversion truncates to zero, and numpy's
  remainder by zero is zero.
\<close>

definition mip_factor :: "int \<Rightarrow> int \<Rightarrow> int" where
  "mip_factor image_mip image_validate_mip =
     (if image_mip \<le> image_validate_mip then 2 ^ nat (image_validate_mip - image_mip) else 0)"

definition np_mod :: "int \<Rightarrow> int \<Rightarrow> int" where
  "np_mod a f = (if f = 0 then 0 else a mod f)"

definition clamped_offset :: "int \<Rightarrow> int \<Rightarrow> int \<Rightarrow> int" where
  "clamped_offset go vo f = go + f - np_mod (go - vo) f"

definition clamped_stop :: "int \<Rightarrow> nat \<Rightarrow> int \<Rightarrow> int \<Rightarrow> int" where
  "clamped_stop go s vo f = go + int s - np_mod (go + int s - vo) f"

text \<open>
  Modelled from the spec: \<^verbatim>\<open>OffsetArray.cutout\<close> (not among the sources), the cutout by
  slices of global coordinates, given in z,y,x order as \<open>(start, stop)\<close> pairs: it
  translates them to local indices and fails when a slice is not contained in the array.
\<close>

definition contained :: "int \<times> int \<Rightarrow> int \<Rightarrow> nat \<Rightarrow> bool" where
  "contained sl go n = (case sl of (a, b) \<Rightarrow> go \<le> a \<and> a \<le> b \<and> b \<le> go + int n)"

definition cutout ::
  "(int \<times> int) \<times> (int \<times> int) \<times> (int \<times> int) \<Rightarrow> 'a offset_array \<Rightarrow> py_error + 'a arr3" where
  "cutout sl img =
     (case sl of (sz, sy, sx) \<Rightarrow>
      case global_offset img of (oz, oy, ox) \<Rightarrow>
      case shape3 (arr img) of (d, h, w) \<Rightarrow>
        if contained sz oz d \<and> contained sy oy h \<and> contained sx ox w then
          Inr (map (\<lambda>pl. map (\<lambda>row. py_slice (fst sx - ox) (snd sx - ox) row)
                       (py_slice (fst sy - oy) (snd sy - oy) pl))
                 (py_slice (fst sz - oz) (snd sz - oz) (arr img)))
        else Inl IndexError)"

text \<open>\<^verbatim>\<open>np.transpose\<close> of a three-dimensional array reverses its axes.\<close>

definition transpose3 :: "'a arr3 \<Rightarrow> 'a arr3" where
  "transpose3 a = (case shape3 a of (d, h, w) \<Rightarrow>
     tabulate3 (w, h, d) (\<lambda>x y z. a ! z ! y ! x))"

text \<open>
  \<^verbatim>\<open>np.alltrue(validate_image == clamped_image)\<close>: the comparison is elementwise, with
  broadcasting; arrays that do not broadcast are unequal.
\<close>

definition np_all_equal :: "'a arr3 \<Rightarrow> 'a arr3 \<Rightarrow> bool" where
  "np_all_equal a b =
     (case shape3 a of (a0, a1, a2) \<Rightarrow>
      case shape3 b of (b0, b1, b2) \<Rightarrow>
        (broadcastable a0 b0 \<or> broadcastable b0 a0) \<and>
        (broadcastable a1 b1 \<or> broadcastable b1 a1) \<and>
        (broadcastable a2 b2 \<or> broadcastable b2 a2) \<and>
        list_all (\<lambda>i. list_all (\<lambda>j. list_all (\<lambda>k.
            a ! bidx a0 i ! bidx a1 j ! bidx a2 k = b ! bidx b0 i ! bidx b1 j ! bidx b2 k)
          [0..<(if a2 = 1 then b2 else a2)]) [0..<(if a1 = 1 then b1 else a1)])
          [0..<(if a0 = 1 then b0 else a0)])"

section \<open>The executor\<close>

text \<open>
  The output bounding box, as its slices in z,y,x order (\<^verbatim>\<open>output_bbox.to_slices()\<close>), each a
  pair \<open>(start, stop)\<close>.
\<close>

type_synonym bbox = "(int \<times> int) \<times> (int \<times> int) \<times> (int \<times> int)"

text \<open>
  The parameters of \<^verbatim>\<open>Executor.__init__\<close> that the stages below read. \<open>image_mip\<close> is the
  parameter \<^verbatim>\<open>mip\<close>, which is the mip of the output as well.
\<close>

record executor =
  output_layer_path :: string
  output_mask_layer_path :: "string option"
  cropping_margin_size :: "int \<times> int \<times> int"
  image_mip :: int
  output_mask_mip :: int
  missing_section_ids_file_name :: "string option"
  image_validate_mip :: "int option"

text \<open>
  What the collaborators of one invocation answer: the volume store (CloudVolume), the
  inference engine, the storage of the logs, and the functions of this repository that are
  not among the sources. A read of the store is the array it returns, already transposed
  as the caller transposes it, or the error it raises.
\<close>

record world =
  mask_volume :: "py_error + nat arr4"
  image_volume :: "py_error + nat arr4"
  voxel_offset :: "int \<times> int \<times> int"
  downsample_with_averaging :: "nat arr3 \<Rightarrow> nat \<times> nat \<times> nat \<Rightarrow> nat arr3"
  validate_by_template_matching :: "nat arr3 \<Rightarrow> bool"
  validate_volume :: "py_error + nat arr4"
  loadtxt :: "py_error + int list"
  block_inference :: "nat offset_array \<Rightarrow> py_error + real arr4"
  store_output :: "real arr4 \<Rightarrow> py_error option"
  downsample_and_upload :: "real arr4 \<Rightarrow> py_error option"
  put_file :: "string \<Rightarrow> string \<Rightarrow> string list \<Rightarrow> py_error option"
  to_filename :: "bbox \<Rightarrow> string"

text \<open>
  The methods of the executor, as \<^verbatim>\<open>__call__\<close> and \<^verbatim>\<open>_validate_image\<close> call them;
  \<^verbatim>\<open>_upload_log\<close> with the path of the storage and the name of the file it puts.
\<close>

datatype stage =
    ReadOutputMask | ReadImage | ValidateImage | MaskMissingSections | Inference | Crop
  | MaskOutput | UploadOutput | CreateOutputThumbnail | UploadLog string string

text \<open>
  The fields of \<^verbatim>\<open>self\<close> that an invocation writes. \<open>log\<close> holds the keys of the log
  dictionary in the order of their insertion (the values are elapsed times, which are not
  modelled); \<open>calls\<close> records the methods called so far; \<open>output_array\<close> is
  \<^verbatim>\<open>self.output\<close>. \<open>xyfactor\<close> is \<open>None\<close> for a
  Python float, see \<open>mask_output\<close>. \<open>puts\<close> is the effect of the invocation on the storage of
  the logs: the files that the storage has taken, in order, each with the path of the
  storage, the name of the file and its content, which is the log at that moment (the
  keys of the dictionary that \<^verbatim>\<open>json.dumps\<close> writes).
\<close>

record exec_state =
  output_mask :: "nat arr3 option"
  xyfactor :: "nat option"
  image :: "nat offset_array option"
  output_array :: "real arr4 option"
  log :: "string list"
  calls :: "stage list"
  puts :: "(string \<times> string \<times> string list) list"

datatype outcome = Done exec_state | Raised py_error exec_state

definition then_stage :: "outcome \<Rightarrow> (exec_state \<Rightarrow> outcome) \<Rightarrow> outcome" where
  "then_stage r f = (case r of Done s \<Rightarrow> f s | Raised e s \<Rightarrow> Raised e s)"

text \<open>
  \<^verbatim>\<open>start = time.time(); self._stage(); self.log[key] = time.time() - start\<close>
\<close>

definition timed :: "string \<Rightarrow> (exec_state \<Rightarrow> outcome) \<Rightarrow> exec_state \<Rightarrow> outcome" where
  "timed key stg s = then_stage (stg s) (\<lambda>s'. Done (s'\<lparr>log := log s' @ [key]\<rparr>))"

definition enter :: "stage \<Rightarrow> exec_state \<Rightarrow> exec_state" where
  "enter stg s = s\<lparr>calls := calls s @ [stg]\<rparr>"

text \<open>\<^verbatim>\<open>os.path.join(a, b)\<close> of \<^verbatim>\<open>posixpath\<close>, for two components.\<close>

definition path_join :: "string \<Rightarrow> string \<Rightarrow> string" where
  "path_join a b =
     (if take 1 b = ''/'' then b
      else if a = [] \<or> last a = CHR ''/'' then a @ b
      else a @ ''/'' @ b)"

text \<open>
  \<^verbatim>\<open>_upload_log\<close>: \<^verbatim>\<open>put_file\<close> hands the log to the storage at \<open>log_path\<close>, under the file name
  of the bounding box. The storage takes the file or raises.
\<close>

definition upload_log :: "world \<Rightarrow> bbox \<Rightarrow> string \<Rightarrow> exec_state \<Rightarrow> outcome" where
  "upload_log w output_bbox log_path s =
     (let s' = enter (UploadLog log_path (to_filename w output_bbox)) s
      in case put_file w log_path (to_filename w output_bbox) (log s') of
           Some e \<Rightarrow> Raised e s'
         | None \<Rightarrow>
             Done (s'\<lparr>puts := puts s' @ [(log_path, to_filename w output_bbox, log s')]\<rparr>))"

text \<open>
  \<^verbatim>\<open>_read_output_mask\<close>. The volume read is transposed to c,z,y,x order and
  \<^verbatim>\<open>np.squeeze(axis=0)\<close> raises ValueError unless there is one channel.
\<close>

definition read_output_mask :: "world \<Rightarrow> executor \<Rightarrow> exec_state \<Rightarrow> outcome" where
  "read_output_mask w ex s0 =
     (let s = enter ReadOutputMask s0
      in if output_mask_layer_path ex = None \<or> output_mask_layer_path ex = Some []
         then Done (s\<lparr>output_mask := None\<rparr>)
         else
           let s1 = s\<lparr>xyfactor :=
                 (if image_mip ex \<le> output_mask_mip ex
                  then Some (2 ^ nat (output_mask_mip ex - image_mip ex)) else None)\<rparr>
           in case mask_volume w of
                Inl e \<Rightarrow> Raised e s1
              | Inr [m] \<Rightarrow> Done (s1\<lparr>output_mask := Some m\<rparr>)
              | Inr _ \<Rightarrow> Raised ValueError s1)"

text \<open>
  \<^verbatim>\<open>np.all(self.output_mask == 0)\<close>: for \<open>None\<close> the comparison is the scalar \<open>False\<close>.
\<close>

definition mask_is_black :: "nat arr3 option \<Rightarrow> bool" where
  "mask_is_black m = (case m of
       None \<Rightarrow> False
     | Some a \<Rightarrow> list_all (list_all (list_all (\<lambda>v. v = 0))) a)"

text \<open>
  The truth value of \<^verbatim>\<open>self.output_mask\<close> in \<^verbatim>\<open>if self.output_mask:\<close>. \<open>None\<close> is false; an
  array is false when it is empty, has the truth value of its element when it has one
  element, and raises ValueError (``the truth value of an array with more than one
  element is ambiguous'') otherwise.
\<close>

definition size3 :: "'a arr3 \<Rightarrow> nat" where
  "size3 a = sum_list (map (\<lambda>pl. sum_list (map length pl)) a)"

definition mask_truth :: "nat arr3 option \<Rightarrow> py_error + bool" where
  "mask_truth m = (case m of
       None \<Rightarrow> Inr False
     | Some a \<Rightarrow>
         if size3 a = 0 then Inr False
         else if size3 a = 1 then Inr (np_any3 a)
         else Inl ValueError)"

text \<open>
  \<^verbatim>\<open>_read_image\<close>: the input slices are the output slices grown by the cropping margin;
  the image read must have one channel.
\<close>

definition read_image :: "world \<Rightarrow> executor \<Rightarrow> bbox \<Rightarrow> exec_state \<Rightarrow> outcome" where
  "read_image w ex output_bbox s0 =
     (let s = enter ReadImage s0
      in case output_bbox of (sz, sy, sx) \<Rightarrow>
         case cropping_margin_size ex of (m0, m1, m2) \<Rightarrow>
          (case image_volume w of
             Inl e \<Rightarrow> Raised e s
           | Inr [a] \<Rightarrow>
               Done (s\<lparr>image := Some (OffsetArray a (fst sz - m0, fst sy - m1, fst sx - m2))\<rparr>)
           | Inr _ \<Rightarrow> Raised AssertionError s))"

text \<open>
  The clamped slices of \<^verbatim>\<open>_validate_image\<close>, computed in x,y,z order and reversed for the
  cutout.
\<close>

definition clamped_slices ::
  "world \<Rightarrow> executor \<Rightarrow> int \<Rightarrow> nat offset_array \<Rightarrow> (int \<times> int) \<times> (int \<times> int) \<times> (int \<times> int)" where
  "clamped_slices w ex vmip img =
     (case global_offset img of (oz, oy, ox) \<Rightarrow>
      case shape3 (arr img) of (d, h, wd) \<Rightarrow>
      case voxel_offset w of (vx, vy, vz) \<Rightarrow>
        let f = mip_factor (image_mip ex) vmip
        in ((clamped_offset oz vz 1, clamped_stop oz d vz 1),
            (clamped_offset oy vy f, clamped_stop oy h vy f),
            (clamped_offset ox vx f, clamped_stop ox wd vx f)))"

text \<open>The clamped image of \<^verbatim>\<open>_validate_image\<close> after the downsampling loop, in x,y,z order.\<close>

definition clamped_image :: "world \<Rightarrow> executor \<Rightarrow> int \<Rightarrow> nat offset_array \<Rightarrow> py_error + nat arr3" where
  "clamped_image w ex vmip img =
     (case cutout (clamped_slices w ex vmip img) img of
        Inl e \<Rightarrow> Inl e
      | Inr c \<Rightarrow> Inr (downsample_to_mip (downsample_with_averaging w) (image_mip ex) vmip
                       (transpose3 c)))"

text \<open>
  The end of \<^verbatim>\<open>_validate_image\<close>: the volume at the validation mip is read in x,y,z,c
  order, must have one channel, and must equal the downsampled image.
\<close>

definition check_against_volume :: "world \<Rightarrow> nat arr3 \<Rightarrow> exec_state \<Rightarrow> outcome" where
  "check_against_volume w ci s =
     (case validate_volume w of
        Inl e \<Rightarrow> Raised e s
      | Inr v \<Rightarrow>
          if \<not> list_all (list_all (list_all (\<lambda>c. length c = 1))) v then Raised AssertionError s
          else if np_all_equal (map (map (map hd)) v) ci then Done s
          else Raised AssertionError s)"

text \<open>
  \<^verbatim>\<open>_validate_image\<close>. When the template matching returns \<open>False\<close> the log is uploaded to
  the \<^verbatim>\<open>error\<close> directory, and the method goes on.
\<close>

definition validate_image :: "world \<Rightarrow> executor \<Rightarrow> bbox \<Rightarrow> exec_state \<Rightarrow> outcome" where
  "validate_image w ex output_bbox s0 =
     (let s = enter ValidateImage s0
      in case image_validate_mip ex of
           None \<Rightarrow> Done s
         | Some vmip \<Rightarrow>
           (case image s of
              None \<Rightarrow> Raised AttributeError s
            | Some img \<Rightarrow>
              (case clamped_image w ex vmip img of
                 Inl e \<Rightarrow> Raised e s
               | Inr ci \<Rightarrow>
                   then_stage
                     (if validate_by_template_matching w ci then Done s
                      else upload_log w output_bbox (path_join (output_layer_path ex) ''error'') s)
                     (check_against_volume w ci))))"

text \<open>\<^verbatim>\<open>_mask_missing_sections\<close> on the image of the invocation.\<close>

definition mask_missing_sections_stage :: "world \<Rightarrow> executor \<Rightarrow> exec_state \<Rightarrow> outcome" where
  "mask_missing_sections_stage w ex s0 =
     (let s = enter MaskMissingSections s0
      in if missing_section_ids_file_name ex = None \<or> missing_section_ids_file_name ex = Some []
         then Done s
         else case image s of
           None \<Rightarrow> Raised AttributeError s
         | Some img \<Rightarrow>
           (case loadtxt w of
              Inl e \<Rightarrow> Raised e s
            | Inr ids \<Rightarrow>
              (case mask_missing_sections (missing_section_ids_file_name ex) ids img of
                 Inl e \<Rightarrow> Raised e s
               | Inr img' \<Rightarrow> Done (s\<lparr>image := Some img'\<rparr>))))"

text \<open>
  \<^verbatim>\<open>_inference\<close>: the engine is built and applied to the image; what it raises or
  returns is the collaborator's answer.
\<close>

definition inference :: "world \<Rightarrow> exec_state \<Rightarrow> outcome" where
  "inference w s0 =
     (let s = enter Inference s0
      in case image s of
           None \<Rightarrow> Raised AttributeError s
         | Some img \<Rightarrow>
           (case block_inference w img of
              Inl e \<Rightarrow> Raised e s
            | Inr out \<Rightarrow> Done (s\<lparr>output_array := Some out\<rparr>)))"

definition crop_stage :: "executor \<Rightarrow> exec_state \<Rightarrow> outcome" where
  "crop_stage ex s0 =
     (let s = enter Crop s0
      in case output_array s of
           None \<Rightarrow> Raised AttributeError s
         | Some out \<Rightarrow> Done (s\<lparr>output_array := Some (crop (cropping_margin_size ex) out)\<rparr>))"

definition mask_output_stage :: "exec_state \<Rightarrow> outcome" where
  "mask_output_stage s0 =
     (let s = enter MaskOutput s0
      in case (output_mask s, output_array s) of
           (Some m, Some out) \<Rightarrow>
             (case mask_output (xyfactor s) m out of
                Inl e \<Rightarrow> Raised e s
              | Inr (printed, out') \<Rightarrow> Done (s\<lparr>output_array := Some out'\<rparr>))
         | _ \<Rightarrow> Raised AttributeError s)"

text \<open>
  \<^verbatim>\<open>_upload_output\<close> and \<^verbatim>\<open>_create_output_thumbnail\<close> hand the output to the store; its
  transposition to x,y,z,c order is part of the collaborator's call here.
\<close>

definition upload_output :: "world \<Rightarrow> exec_state \<Rightarrow> outcome" where
  "upload_output w s0 =
     (let s = enter UploadOutput s0
      in case output_array s of
           None \<Rightarrow> Raised AttributeError s
         | Some out \<Rightarrow>
           (case store_output w out of Some e \<Rightarrow> Raised e s | None \<Rightarrow> Done s))"

definition create_output_thumbnail :: "world \<Rightarrow> exec_state \<Rightarrow> outcome" where
  "create_output_thumbnail w s0 =
     (let s = enter CreateOutputThumbnail s0
      in case output_array s of
           None \<Rightarrow> Raised AttributeError s
         | Some out \<Rightarrow>
           (case downsample_and_upload w out of Some e \<Rightarrow> Raised e s | None \<Rightarrow> Done s))"

text \<open>
  The conditional masking of \<^verbatim>\<open>__call__\<close>:
  \<^verbatim>\<open>
  if self.output_mask:
      self._mask_output()
      self.log['mask_output'] = elapsed
  \<close>
\<close>

definition mask_if_present :: "exec_state \<Rightarrow> outcome" where
  "mask_if_present s =
     (case mask_truth (output_mask s) of
        Inl e \<Rightarrow> Raised e s
      | Inr True \<Rightarrow> timed ''mask_output'' mask_output_stage s
      | Inr False \<Rightarrow> Done s)"

definition fresh :: exec_state where
  "fresh = \<lparr>output_mask = None, xyfactor = None, image = None, output_array = None,
            log = [], calls = [], puts = []\<rparr>"

text \<open>
  The stages of \<^verbatim>\<open>__call__\<close> after the test of the mask, up to the upload of the log.
\<close>

definition run_after_mask :: "world \<Rightarrow> executor \<Rightarrow> bbox \<Rightarrow> exec_state \<Rightarrow> outcome" where
  "run_after_mask w ex output_bbox s1 =
     then_stage (timed ''read_image'' (read_image w ex output_bbox) s1) (\<lambda>s2.
     then_stage (timed ''validate_image'' (validate_image w ex output_bbox) s2) (\<lambda>s3.
     then_stage (timed ''mask_missing_sections'' (mask_missing_sections_stage w ex) s3) (\<lambda>s4.
     then_stage (timed ''_inference'' (inference w) s4) (\<lambda>s5.
     then_stage (timed ''crop_output'' (crop_stage ex) s5) (\<lambda>s6.
     then_stage (mask_if_present s6) (\<lambda>s7.
     then_stage (timed ''upload_output'' (upload_output w) s7) (\<lambda>s8.
     then_stage (timed ''create_output_thumbnail'' (create_output_thumbnail w) s8) (\<lambda>s9.
       upload_log w output_bbox (path_join (output_layer_path ex) ''log'')
         (s9\<lparr>log := log s9 @ [''total_time'']\<rparr>)))))))))"

text \<open>
  \<^verbatim>\<open>Executor.__call__\<close>: one invocation on an output bounding box, from a new log. It
  returns after the mask is read when the mask is black.
\<close>

definition call :: "world \<Rightarrow> executor \<Rightarrow> bbox \<Rightarrow> outcome" where
  "call w ex output_bbox =
     then_stage (timed ''read_output_mask'' (read_output_mask w ex) fresh) (\<lambda>s1.
       if mask_is_black (output_mask s1) then Done s1
       else run_after_mask w ex output_bbox s1)"

section \<open>The trace of an invocation\<close>

definition final :: "outcome \<Rightarrow> exec_state" where
  "final r = (case r of Done s \<Rightarrow> s | Raised e s \<Rightarrow> s)"

definition raised :: "outcome \<Rightarrow> py_error option" where
  "raised r = (case r of Done s \<Rightarrow> None | Raised e s \<Rightarrow> Some e)"

text \<open>The uploads of the log among the calls, each with its path and file name.\<close>

fun log_uploads :: "stage list \<Rightarrow> (string \<times> string) list" where
  "log_uploads [] = []"
| "log_uploads (UploadLog p f # xs) = (p, f) # log_uploads xs"
| "log_uploads (_ # xs) = log_uploads xs"

text \<open>
  The sequence of stages of a complete invocation, as the state machine of the
  orchestrator lists them: \<open>v\<close> says that the validation uploaded the log to the error
  path, \<open>m\<close> that the output mask was applied.
\<close>

definition pipeline :: "string \<Rightarrow> string \<Rightarrow> bool \<Rightarrow> bool \<Rightarrow> stage list" where
  "pipeline dir file v m =
     [ReadOutputMask, ReadImage, ValidateImage]
     @ (if v then [UploadLog (path_join dir ''error'') file] else [])
     @ [MaskMissingSections, Inference, Crop]
     @ (if m then [MaskOutput] else [])
     @ [UploadOutput, CreateOutputThumbnail, UploadLog (path_join dir ''log'') file]"

text \<open>
  A part of the invocation stays in a set of call sequences when, from every state, it
  adds one of them to the calls if it returns, and a prefix of one of them if it raises.
\<close>

definition stays_in :: "(exec_state \<Rightarrow> outcome) \<Rightarrow> stage list set \<Rightarrow> bool" where
  "stays_in f XS = (\<forall>s. \<exists>xs\<in>XS.
     (case f s of
        Done s' \<Rightarrow> calls s' = calls s @ xs
      | Raised e s' \<Rightarrow> (\<exists>n. calls s' = calls s @ take n xs)))"

text \<open>
  An invocation with one more upload of the log: the call \<open>u\<close> at position \<open>k\<close> of the calls and
  the file \<open>p\<close> at position \<open>j\<close> of the files taken by the storage.
\<close>

definition inserted :: "nat \<Rightarrow> 'a \<Rightarrow> 'a list \<Rightarrow> 'a list" where
  "inserted k x xs = take k xs @ [x] @ drop k xs"




section \<open>Example invocations\<close>

text \<open>
  An image of two sections of four by four voxels at mip 0, validated at mip 1; the
  clamped region is one block of two by two voxels of the second section. The template
  matching of \<open>demo_world\<close> reports missing data.
\<close>

definition demo_downsample :: "nat arr3 \<Rightarrow> nat \<times> nat \<times> nat \<Rightarrow> nat arr3" where
  "demo_downsample a f =
     (case a of [[[p], [q]], [[r], [s]]] \<Rightarrow> [[[(p + q + r + s) div 4]]] | _ \<Rightarrow> a)"

definition demo_image :: "nat arr3" where
  "demo_image =
     [[[0, 1, 2, 3], [4, 5, 6, 7], [8, 9, 10, 11], [12, 13, 14, 15]],
      [[16, 17, 18, 19], [20, 21, 22, 23], [24, 25, 26, 27], [28, 29, 30, 31]]]"

definition demo_world :: world where
  "demo_world = \<lparr>
     mask_volume = Inr [[[[1, 0]]]],
     image_volume = Inr [demo_image],
     voxel_offset = (0, 0, 0),
     downsample_with_averaging = demo_downsample,
     validate_by_template_matching = (\<lambda>a. False),
     validate_volume = Inr [[[[28]]]],
     loadtxt = Inr [],
     block_inference = (\<lambda>img. Inr (replicate 3 (map (map (map real)) (arr img)))),
     store_output = (\<lambda>out. None),
     downsample_and_upload = (\<lambda>out. None),
     put_file = (\<lambda>p f l. None),
     to_filename = (\<lambda>b. ''0-2_0-4_0-4'')\<rparr>"

definition passing_world :: world where
  "passing_world = demo_world\<lparr>validate_by_template_matching := (\<lambda>a. True)\<rparr>"

definition black_world :: world where
  "black_world = demo_world\<lparr>mask_volume := Inr [[[[0, 0]]]]\<rparr>"

definition demo_executor :: executor where
  "demo_executor = \<lparr>
     output_layer_path = ''gs://out'',
     output_mask_layer_path = None,
     cropping_margin_size = (0, 0, 0),
     image_mip = 0,
     output_mask_mip = 1,
     missing_section_ids_file_name = None,
     image_validate_mip = Some 1\<rparr>"

definition masked_executor :: executor where
  "masked_executor = demo_executor\<lparr>output_mask_layer_path := Some ''gs://mask''\<rparr>"

definition demo_bbox :: bbox where
  "demo_bbox = ((0, 2), (0, 4), (0, 4))"



text \<open>
  An image of three sections of eight by eight voxels at mip 0, validated at mip 2 with the
  box average: the clamped region is one block of four by four voxels of the second and of
  the third section.
\<close>

definition deep_image :: "nat arr3" where
  "deep_image =
     [replicate 8 (replicate 8 0),
      replicate 4 (replicate 8 0)
      @ [[0, 0, 0, 0, 1, 1, 1, 1],
         [0, 0, 0, 0, 1, 0, 1, 0],
         [0, 0, 0, 0, 1, 1, 2, 2],
         [0, 0, 0, 0, 1, 0, 2, 1]],
      replicate 4 (replicate 8 0)
      @ [[0, 0, 0, 0, 0, 0, 4, 4],
         [0, 0, 0, 0, 0, 0, 4, 4],
         [0, 0, 0, 0, 0, 0, 0, 0],
         [0, 0, 0, 0, 0, 0, 0, 0]]]"

definition box_world :: world where
  "box_world = demo_world\<lparr>downsample_with_averaging := box_average\<rparr>"

definition deep_executor :: executor where
  "deep_executor = demo_executor\<lparr>image_validate_mip := Some 2\<rparr>"

text \<open>An image whose depth axis spans the sections 90 to 109.\<close>

definition sections_image :: "nat offset_array" where
  "sections_image = OffsetArray (replicate 20 [[1, 1]]) (90, 0, 0)"


text \<open>
  Output buffers: one of the shape \<open>(3, 68, 320, 320)\<close>, one of four channels of two rows, and one
  of a single channel of three sections of three by three voxels.
\<close>

definition margin_buffer :: "real arr4" where
  "margin_buffer = replicate 3 (replicate 68 (replicate 320 (replicate 320 0)))"

definition four_channels :: "real arr4" where
  "four_channels = replicate 4 [[[1, 2, 3, 4], [5, 6, 7, 8]]]"

definition small_buffer :: "real arr4" where
  "small_buffer =
     [[[[1, 2, 3], [4, 5, 6], [7, 8, 9]],
       [[10, 11, 12], [13, 14, 15], [16, 17, 18]],
       [[19, 20, 21], [22, 23, 24], [25, 26, 27]]]]"

section \<open>The task queue\<close>

text \<open>
  \<^verbatim>\<open>SQSQueue\<close> of \<^verbatim>\<open>chunkflow/lib/aws/sqs_queue.py\<close>. A message of a response has a receipt
  handle, a body and the MD5 digest of the body.
\<close>

record message =
  receipt_handle :: string
  body :: string
  md5_of_body :: string

record sqs_queue =
  wait_if_empty :: int
  fetch_wait_time_seconds :: int

text \<open>
  The service: the answer to the \<open>i\<close>-th \<^verbatim>\<open>receive_message\<close> of the client (\<open>None\<close> when the
  response has no \<^verbatim>\<open>Messages\<close>), and the digest function of \<^verbatim>\<open>hashlib\<close>.
\<close>

record sqs_service =
  responses :: "nat \<Rightarrow> message option"
  md5_hexdigest :: "string \<Rightarrow> string"

datatype next_result =
    Task string string
  | StopIteration
  | RecursionError
  | NextAssertionError
  | SleepValueError

text \<open>
  \<^verbatim>\<open>SQSQueue.__next__\<close>. It calls itself after an empty response and a sleep of
  \<^verbatim>\<open>wait_if_empty\<close> seconds; \<^verbatim>\<open>time.sleep\<close> raises ValueError for a negative length. The
  first argument is the number of nested calls that the interpreter's recursion limit
  still allows, after which Python raises RecursionError. The result comes with the
  number of receives made and the seconds slept.
\<close>

fun sqs_next :: "nat \<Rightarrow> sqs_queue \<Rightarrow> sqs_service \<Rightarrow> nat \<Rightarrow> int \<Rightarrow> next_result \<times> nat \<times> int" where
  "sqs_next 0 q srv i slept = (RecursionError, i, slept)"
| "sqs_next (Suc depth) q srv i slept =
     (case responses srv i of
        None \<Rightarrow>
          if wait_if_empty q \<noteq> 0 then
            if wait_if_empty q < 0 then (SleepValueError, Suc i, slept)
            else sqs_next depth q srv (Suc i) (slept + wait_if_empty q)
          else (StopIteration, Suc i, slept)
      | Some m \<Rightarrow>
          if md5_of_body m = md5_hexdigest srv (body m)
          then (Task (receipt_handle m) (body m), Suc i, slept)
          else (NextAssertionError, Suc i, slept))"

text \<open>A service whose queue stays empty, and a queue with the default waiting time.\<close>

definition empty_service :: sqs_service where
  "empty_service = \<lparr>responses = (\<lambda>i. None), md5_hexdigest = (\<lambda>b. b)\<rparr>"

definition default_queue :: sqs_queue where
  "default_queue = \<lparr>wait_if_empty = 100, fetch_wait_time_seconds = 20\<rparr>"

text \<open>A queue that does not wait when it is empty.\<close>

definition impatient_queue :: sqs_queue where
  "impatient_queue = \<lparr>wait_if_empty = 0, fetch_wait_time_seconds = 20\<rparr>"

section \<open>The early exit on a black mask\<close>

text \<open>
  C1. When a mask layer is configured and the mask fetched for the invocation is zero
  everywhere, \<open>call\<close> returns right after the mask is read: the only method called is
  \<open>_read_output_mask\<close>, so no image is read, nothing is validated, inferred, cropped,
  masked or written, and the log is not uploaded either.
\<close>

theorem black_mask_returns_after_read:
  assumes "output_mask_layer_path ex = Some p" and "p \<noteq> []"
    and "mask_volume w = Inr [m]"
    and "\<forall>pl\<in>set m. \<forall>row\<in>set pl. \<forall>v\<in>set row. v = 0"
  shows "\<exists>s. call w ex output_bbox = Done s \<and> calls s = [ReadOutputMask]
           \<and> log s = [''read_output_mask''] \<and> image s = None \<and> output_array s = None"
  using assms
  by (simp add: call_def read_output_mask_def timed_def then_stage_def enter_def fresh_def
      mask_is_black_def list_all_iff Let_def)

theorem black_mask_returns_after_read_witness:
  "output_mask_layer_path masked_executor = Some ''gs://mask''
   \<and> mask_volume black_world = Inr [[[[0, 0]]]]
   \<and> (\<exists>s. call black_world masked_executor demo_bbox = Done s \<and> calls s = [ReadOutputMask]
           \<and> log s = [''read_output_mask''] \<and> image s = None \<and> output_array s = None)"
  using black_mask_returns_after_read
    [of masked_executor "''gs://mask''" black_world "[[[0, 0]]]" demo_bbox]
  by (simp add: masked_executor_def demo_executor_def black_world_def demo_world_def)

section \<open>The short cuts of the masking\<close>

text \<open>
  C6. \<open>mask_output\<close> returns the output as it is in two cases: when every element of the
  coarse mask is nonzero, printing only that it returns directly, before any upsampled
  mask is built; and when the output is zero everywhere, again without upsampling.
\<close>

theorem mask_output_short_cuts:
  "((\<forall>pl\<in>set coarse. \<forall>row\<in>set pl. \<forall>v\<in>set row. v \<noteq> 0) \<longrightarrow>
      mask_output f coarse out
        = Inr ([''mask elements are all positive, return directly''], out))
   \<and> ((\<forall>ch\<in>set out. \<forall>pl\<in>set ch. \<forall>row\<in>set pl. \<forall>v\<in>set row. v = 0) \<longrightarrow>
      (\<exists>printed. mask_output f coarse out = Inr (printed, out)
         \<and> ''upsampling mask ...'' \<notin> set printed))"
  by (auto simp add: mask_output_def np_all3_def np_any4_def np_any3_def list_all_iff list_ex_iff)

theorem mask_output_short_cuts_witness:
  "mask_output (Some 2) [[[1, 2]]] [[[[5, 0]]]]
     = Inr ([''mask elements are all positive, return directly''], [[[[5, 0]]]])
   \<and> (\<exists>printed. mask_output (Some 2) [[[1, 0]]] [[[[0, 0]]]] = Inr (printed, [[[[0, 0]]]])
         \<and> ''upsampling mask ...'' \<notin> set printed)"
  using mask_output_short_cuts [of "[[[1, 2]]]" "Some 2" "[[[[5, 0]]]]"]
    mask_output_short_cuts [of "[[[1, 0]]]" "Some 2" "[[[[0, 0]]]]"]
  by simp

section \<open>The missing sections\<close>

lemma zero_section_in_range:
  "0 \<le> k \<Longrightarrow> k < int (length a) \<Longrightarrow>
     zero_section k a = Inr (a[nat k := map (map (\<lambda>_. 0)) (a ! nat k)])"
  by (simp add: zero_section_def Let_def)

text \<open>
  For a list of ids that is sorted and does not hold the stop of the depth range, the loop
  zeroes exactly the sections of the image whose depth is in the list.
\<close>

lemma mask_sections_loop_sorted:
  assumes "sorted ids" and "oz + int (length a) \<notin> set ids"
  shows "\<exists>a'. mask_sections_loop oz (oz + int (length a)) oz ids a = Inr a'
           \<and> length a' = length a
           \<and> (\<forall>k<length a. a' ! k =
                 (if oz + int k \<in> set ids then map (map (\<lambda>_. 0)) (a ! k) else a ! k))"
  using assms
proof (induction ids arbitrary: a)
  case Nil
  then show ?case by simp
next
  case (Cons z zs)
  let ?stop = "oz + int (length a)"
  from Cons.prems have s: "sorted zs" and ge: "\<forall>y\<in>set zs. z \<le> y"
    and nz: "z \<noteq> ?stop" and nzs: "?stop \<notin> set zs"
    by auto
  show ?case
  proof (cases "z > ?stop")
    case True
    then have "\<forall>k<length a. oz + int k \<notin> set (z # zs)" using ge by auto
    with True show ?thesis by simp
  next
    case False
    with nz have lt: "z < ?stop" by simp
    show ?thesis
    proof (cases "oz \<le> z")
      case True
      let ?j = "nat (z - oz)"
      let ?a = "a[?j := map (map (\<lambda>_. 0)) (a ! ?j)]"
      have j: "?j < length a" using True lt by simp
      have zs: "zero_section (z - oz) a = Inr ?a"
        using True lt by (intro zero_section_in_range) simp_all
      have len: "length ?a = length a" by simp
      from Cons.IH [of ?a] s nzs obtain a' where
        l: "mask_sections_loop oz ?stop oz zs ?a = Inr a'" and
        la: "length a' = length a" and
        c: "\<forall>k<length a. a' ! k =
              (if oz + int k \<in> set zs then map (map (\<lambda>_. 0)) (?a ! k) else ?a ! k)"
        by (auto simp: len)
      have r: "mask_sections_loop oz ?stop oz (z # zs) a = Inr a'"
        using True lt zs l by simp
      have "a' ! k = (if oz + int k \<in> set (z # zs) then map (map (\<lambda>_. 0)) (a ! k) else a ! k)"
        if k: "k < length a" for k
      proof (cases "k = ?j")
        case True
        then have "oz + int k = z" using \<open>oz \<le> z\<close> by simp
        with c k True j show ?thesis by simp
      next
        case False
        then have "oz + int k \<noteq> z" using \<open>oz \<le> z\<close> by auto
        with c k False show ?thesis by simp
      qed
      with r la show ?thesis by blast
    next
      case False
      then have "\<forall>k<length a. oz + int k \<noteq> z" by auto
      moreover from Cons.IH [of a] s nzs obtain a' where
        "mask_sections_loop oz ?stop oz zs a = Inr a'" "length a' = length a"
        "\<forall>k<length a. a' ! k =
              (if oz + int k \<in> set zs then map (map (\<lambda>_. 0)) (a ! k) else a ! k)"
        by blast
      ultimately show ?thesis using False lt by auto
    qed
  qed
qed

lemma mask_missing_sections_sorted:
  assumes "file_name = Some n" and "n \<noteq> []" and "sorted ids"
    and "fst (global_offset img) + int (length (arr img)) \<notin> set ids"
  shows "\<exists>a'. mask_missing_sections file_name ids img = Inr (img\<lparr>arr := a'\<rparr>)
           \<and> length a' = length (arr img)
           \<and> (\<forall>k<length (arr img). a' ! k =
                 (if fst (global_offset img) + int k \<in> set ids
                  then map (map (\<lambda>_. 0)) (arr img ! k) else arr img ! k))"
proof -
  obtain oz oy ox where g: "global_offset img = (oz, oy, ox)" by (cases "global_offset img")
  from mask_sections_loop_sorted [OF assms(3), of oz "arr img"] assms(4) g
  obtain a' where l: "mask_sections_loop oz (oz + int (length (arr img))) oz ids (arr img) = Inr a'"
    and r: "length a' = length (arr img)"
    "\<forall>k<length (arr img). a' ! k =
       (if fst (global_offset img) + int k \<in> set ids
        then map (map (\<lambda>_. 0)) (arr img ! k) else arr img ! k)"
    by auto
  from l assms(1,2) g have "mask_missing_sections file_name ids img = Inr (img\<lparr>arr := a'\<rparr>)"
    by (simp add: mask_missing_sections_def zslice_def)
  with r show ?thesis by blast
qed

text \<open>The id at the stop of the depth range raises, whatever the image.\<close>

lemma section_at_stop_raises:
  "mask_sections_loop oz (oz + int (length a)) oz [oz + int (length a)] a = Inl IndexError"
  by (simp add: zero_section_def Let_def)

text \<open>
  C5. The ids 100 and 105 zero exactly the sections 100 and 105 of an image that spans the
  sections 90 to 109. A list that holds the stop of the depth range, here the id 110,
  passes the test \<open>z \<le> stop\<close> of the loop and indexes the image one section past its
  end: the stage raises IndexError instead of leaving the image as it is.
\<close>

theorem missing_section_at_stop_raises:
  "mask_missing_sections (Some ''missing.txt'') [100, 105, 110] sections_image = Inl IndexError"
  by (simp add: mask_missing_sections_def zslice_def sections_image_def OffsetArray_def
      zero_section_def Let_def)

lemma missing_sections_scenario:
  "mask_missing_sections (Some ''missing.txt'') [100, 105] sections_image
    = Inr (OffsetArray
        (replicate 10 [[1, 1]] @ [[[0, 0]]] @ replicate 4 [[1, 1]] @ [[[0, 0]]]
          @ replicate 4 [[1, 1]]) (90, 0, 0))"
  by code_simp

section \<open>The test of the mask before the masking\<close>

text \<open>The test raises for every mask of more than one element.\<close>

lemma mask_if_present_ambiguous:
  "output_mask s = Some m \<Longrightarrow> 1 < size3 m \<Longrightarrow> mask_if_present s = Raised ValueError s"
  by (simp add: mask_if_present_def mask_truth_def)

text \<open>
  C2. With a mask layer configured and a fetched mask of two elements that is not black,
  the invocation reaches the cropping and then raises ValueError at the test
  \<open>if self.output_mask\<close>: the truth value of an array of more than one element is
  ambiguous. The masking does not run and nothing is uploaded.
\<close>

theorem mask_test_raises_on_array:
  "raised (call passing_world masked_executor demo_bbox) = Some ValueError
   \<and> calls (final (call passing_world masked_executor demo_bbox))
       = [ReadOutputMask, ReadImage, ValidateImage, MaskMissingSections, Inference, Crop]"
  by code_simp

section \<open>Waiting on an empty queue\<close>

lemma sqs_next_empty:
  "0 < wait_if_empty q \<Longrightarrow> (\<forall>j. responses srv j = None) \<Longrightarrow>
   sqs_next depth q srv i slept = (RecursionError, i + depth, slept + int depth * wait_if_empty q)"
  by (induction depth arbitrary: i slept) (auto simp: algebra_simps)

text \<open>
  C9, as the code has it. With a positive waiting time, \<open>__next__\<close> on a queue that stays
  empty never signals the end of the queue: it sleeps and calls itself again at every
  empty response, for as many nested calls as the interpreter allows, and the time slept
  grows with that number. Only a queue with a waiting time of zero raises StopIteration on
  an empty response, at once and without sleeping.
\<close>

theorem empty_queue_retries_without_end:
  "(0 < wait_if_empty q \<and> (\<forall>j. responses srv j = None) \<longrightarrow>
      sqs_next depth q srv i slept
        = (RecursionError, i + depth, slept + int depth * wait_if_empty q))
   \<and> (wait_if_empty q = 0 \<and> responses srv i = None \<longrightarrow>
      sqs_next (Suc depth) q srv i slept = (StopIteration, Suc i, slept))"
  using sqs_next_empty [of q srv depth i slept] by simp

theorem empty_queue_retries_without_end_witness:
  "0 < wait_if_empty default_queue \<and> (\<forall>j. responses empty_service j = None)
   \<and> sqs_next 3 default_queue empty_service 0 0 = (RecursionError, 3, 300)
   \<and> wait_if_empty impatient_queue = 0
   \<and> sqs_next (Suc 3) impatient_queue empty_service 0 0 = (StopIteration, Suc 0, 0)"
  using empty_queue_retries_without_end [of default_queue empty_service 3 0 0]
    empty_queue_retries_without_end [of impatient_queue empty_service 3 0 0]
  by (simp add: default_queue_def impatient_queue_def empty_service_def)

theorem empty_queue_never_stops_counterexample:
  "sqs_next 1000 default_queue empty_service 0 0 = (RecursionError, 1000, 100000)"
  using sqs_next_empty [of default_queue empty_service 1000 0 0]
  by (simp add: default_queue_def empty_service_def)

section \<open>The crop of the margin\<close>

lemma py_slice_margin:
  "length xs = n + 2 * m \<Longrightarrow> py_slice (int m) (int (length xs) - int m) xs = take n (drop m xs)"
  by (simp add: py_slice_def norm_index_def Let_def nat_add_distrib)

lemma crop3_interior:
  assumes "has_shape3 (d + 2 * m0, h + 2 * m1, w + 2 * m2) ch"
  shows "map (\<lambda>pl. map (\<lambda>row. py_slice (int m2) (int (length row) - int m2) row)
                 (py_slice (int m1) (int (length pl) - int m1) pl))
        (py_slice (int m0) (int (length ch) - int m0) ch)
       = map (\<lambda>pl. map (\<lambda>row. take w (drop m2 row)) (take h (drop m1 pl))) (take d (drop m0 ch))"
proof -
  from assms have l0: "length ch = d + 2 * m0"
    and l1: "\<And>pl. pl \<in> set ch \<Longrightarrow> length pl = h + 2 * m1"
    and l2: "\<And>pl row. pl \<in> set ch \<Longrightarrow> row \<in> set pl \<Longrightarrow> length row = w + 2 * m2"
    by (auto simp: has_shape3_def list_all_iff)
  have rows: "map (\<lambda>row. py_slice (int m2) (int (length row) - int m2) row)
                 (py_slice (int m1) (int (length pl) - int m1) pl)
              = map (\<lambda>row. take w (drop m2 row)) (take h (drop m1 pl))"
    if "pl \<in> set ch" for pl
  proof -
    have "py_slice (int m1) (int (length pl) - int m1) pl = take h (drop m1 pl)"
      using l1 [OF that] by (rule py_slice_margin)
    moreover have "py_slice (int m2) (int (length row) - int m2) row = take w (drop m2 row)"
      if "row \<in> set (take h (drop m1 pl))" for row
    proof -
      from that have "row \<in> set pl" by (meson in_set_takeD in_set_dropD)
      from l2 [OF \<open>pl \<in> set ch\<close> this] show ?thesis by (rule py_slice_margin)
    qed
    ultimately show ?thesis by simp
  qed
  have "py_slice (int m0) (int (length ch) - int m0) ch = take d (drop m0 ch)"
    using l0 by (rule py_slice_margin)
  moreover have "pl \<in> set ch" if "pl \<in> set (take d (drop m0 ch))" for pl
    using that by (meson in_set_takeD in_set_dropD)
  ultimately show ?thesis using rows by simp
qed

lemma crop_interior:
  assumes "has_shape4 (c, d + 2 * m0, h + 2 * m1, w + 2 * m2) out"
  shows "crop (int m0, int m1, int m2) out
    = map (\<lambda>ch. map (\<lambda>pl. map (\<lambda>row. take w (drop m2 row)) (take h (drop m1 pl)))
                  (take d (drop m0 ch))) out"
  using assms by (simp add: crop_def has_shape4_def list_all_iff crop3_interior)

text \<open>
  C7. The crop of an output of shape \<open>(c, d + 2 m0, h + 2 m1, w + 2 m2)\<close> by the margin
  \<open>(m0, m1, m2)\<close> has the shape \<open>(c, d, h, w)\<close> and holds the interior voxels: the voxel
  \<open>(i, z, y, x)\<close> of the result is the voxel \<open>(i, z + m0, y + m1, x + m2)\<close> of the output, over
  all channels. A buffer of shape \<open>(3, 68, 320, 320)\<close> cropped by \<open>(4, 32, 32)\<close> has the shape
  \<open>(3, 60, 256, 256)\<close>.
\<close>

theorem crop_keeps_interior:
  "(has_shape4 (c, d + 2 * m0, h + 2 * m1, w + 2 * m2) out \<longrightarrow>
      has_shape4 (c, d, h, w) (crop (int m0, int m1, int m2) out)
      \<and> (\<forall>i<c. \<forall>z<d. \<forall>y<h. \<forall>x<w.
            crop (int m0, int m1, int m2) out ! i ! z ! y ! x
              = out ! i ! (z + m0) ! (y + m1) ! (x + m2)))
   \<and> (has_shape4 (3, 68, 320, 320) out \<longrightarrow>
        has_shape4 (3, 60, 256, 256) (crop (4, 32, 32) out))"
proof -
  have gen: "has_shape4 (c, d, h, w) (crop (int m0, int m1, int m2) out)
      \<and> (\<forall>i<c. \<forall>z<d. \<forall>y<h. \<forall>x<w.
            crop (int m0, int m1, int m2) out ! i ! z ! y ! x
              = out ! i ! (z + m0) ! (y + m1) ! (x + m2))"
    if sh: "has_shape4 (c, d + 2 * m0, h + 2 * m1, w + 2 * m2) out"
    for c d h w m0 m1 m2 and out :: "'a arr4"
  proof -
    from sh have l: "length out = c"
      and l0: "\<And>i. i < c \<Longrightarrow> length (out ! i) = d + 2 * m0"
      and l1: "\<And>i z. i < c \<Longrightarrow> z < d + 2 * m0 \<Longrightarrow> length (out ! i ! z) = h + 2 * m1"
      and l2: "\<And>i z y. i < c \<Longrightarrow> z < d + 2 * m0 \<Longrightarrow> y < h + 2 * m1
                 \<Longrightarrow> length (out ! i ! z ! y) = w + 2 * m2"
      by (auto simp: has_shape4_def has_shape3_def list_all_length)
    show ?thesis
      unfolding crop_interior [OF sh]
      by (auto simp: has_shape4_def has_shape3_def list_all_length l l0 l1 l2 add.commute)
  qed
  have "has_shape4 (3, 60, 256, 256) (crop (int 4, int 32, int 32) out)"
    if "has_shape4 (3, 68, 320, 320) out"
    using gen [of 3 60 4 256 32 256 32 out] that by simp
  then show ?thesis using gen by simp
qed

theorem crop_keeps_interior_witness:
  "has_shape4 (1, 1 + 2 * 1, 1 + 2 * 1, 1 + 2 * 1) small_buffer
   \<and> crop (1, 1, 1) small_buffer = [[[[14]]]]
   \<and> small_buffer ! 0 ! (0 + 1) ! (0 + 1) ! (0 + 1) = 14
   \<and> has_shape4 (3, 68, 320, 320) margin_buffer
   \<and> has_shape4 (3, 60, 256, 256) (crop (4, 32, 32) margin_buffer)"
proof -
  have s: "has_shape4 (1, 1 + 2 * 1, 1 + 2 * 1, 1 + 2 * 1) small_buffer"
    by (simp add: has_shape4_def has_shape3_def small_buffer_def)
  have m: "has_shape4 (3, 68, 320, 320) margin_buffer"
    by (simp add: has_shape4_def has_shape3_def margin_buffer_def list_all_iff)
  have c: "crop (1, 1, 1) small_buffer = [[[[14]]]]"
    by (simp add: crop_def small_buffer_def py_slice_def norm_index_def)
  from crop_keeps_interior [of 1 1 1 1 1 1 1 small_buffer] s
  have "crop (int 1, int 1, int 1) small_buffer ! 0 ! 0 ! 0 ! 0
          = small_buffer ! 0 ! (0 + 1) ! (0 + 1) ! (0 + 1)"
    by blast
  with c have "small_buffer ! 0 ! (0 + 1) ! (0 + 1) ! (0 + 1) = 14" by simp
  moreover from crop_keeps_interior [of 3 60 4 256 32 256 32 margin_buffer] m
  have "has_shape4 (3, 60, 256, 256) (crop (4, 32, 32) margin_buffer)" by blast
  ultimately show ?thesis using s m c by blast
qed

section \<open>The upsampled mask\<close>

lemma tabulate3_nth:
  "z < d \<Longrightarrow> y < h \<Longrightarrow> x < w \<Longrightarrow> tabulate3 (d, h, w) g ! z ! y ! x = g z y x"
  by (simp add: tabulate3_def)

lemma tabulate3_cong:
  "(\<And>z y x. z < d \<Longrightarrow> y < h \<Longrightarrow> x < w \<Longrightarrow> g z y x = g' z y x) \<Longrightarrow>
     tabulate3 (d, h, w) g = tabulate3 (d, h, w) g'"
  by (simp add: tabulate3_def)

lemma shape3_tabulate3:
  "0 < d \<Longrightarrow> 0 < h \<Longrightarrow> shape3 (tabulate3 (d, h, w) g) = (d, h, w)"
  by (simp add: shape3_def tabulate3_def upt_conv_Cons)

lemma shape3_has_shape3:
  "has_shape3 (d, h, w) a \<Longrightarrow> 0 < d \<Longrightarrow> 0 < h \<Longrightarrow> shape3 a = (d, h, w)"
  by (cases a; cases "hd a") (auto simp: has_shape3_def shape3_def)

lemma zeros3_tabulate3: "zeros3 sh = tabulate3 sh (\<lambda>z y x. 0)"
  by (cases sh) (simp add: zeros3_def tabulate3_def map_replicate_const)

lemma strided_len_exact:
  assumes "off < f"
  shows "strided_len (f * n) off f = n"
proof (cases "n = 0")
  case True
  then show ?thesis by (simp add: strided_len_def)
next
  case False
  with assms have lt: "off < f * n"
    by (metis less_le_trans mult.right_neutral mult_le_mono2 Suc_leI neq0_conv One_nat_def)
  have "(f * n - off + f - 1) div f = n"
  proof (rule div_nat_eqI)
    show "f * n \<le> f * n - off + f - 1" using assms lt by simp
    show "f * n - off + f - 1 < f * Suc n" using assms lt by simp
  qed
  with lt show ?thesis by (simp add: strided_len_def)
qed

lemma stride_index:
  assumes "off < (f::nat)"
  shows "(off \<le> y \<and> (y - off) mod f = 0) = (y mod f = off)"
    and "y mod f = off \<Longrightarrow> (y - off) div f = y div f"
proof -
  have f: "0 < f" using assms by simp
  show "(off \<le> y \<and> (y - off) mod f = 0) = (y mod f = off)"
  proof
    assume a: "off \<le> y \<and> (y - off) mod f = 0"
    then have "y = (y - off) + off" by simp
    then have "y mod f = ((y - off) mod f + off) mod f" by (metis mod_add_left_eq)
    with a assms show "y mod f = off" by simp
  next
    assume "y mod f = off"
    then have "y - off = f * (y div f)" by (metis minus_mod_eq_mult_div)
    moreover have "off \<le> y" using \<open>y mod f = off\<close> by (metis mod_less_eq_dividend)
    ultimately show "off \<le> y \<and> (y - off) mod f = 0" by simp
  qed
  show "(y - off) div f = y div f" if "y mod f = off"
  proof -
    from that have "y - off = f * (y div f)" by (metis minus_mod_eq_mult_div)
    with f show ?thesis by simp
  qed
qed

lemma bidx_in_range: "i < v \<Longrightarrow> bidx v i = i"
  by (simp add: bidx_def)

lemma assign_strided_tabulate3:
  assumes v: "shape3 val = (d, hm, wm)" and o: "o0 < f" "o1 < f"
    and pos: "0 < d" "0 < hm" "0 < wm"
  shows "assign_strided f o0 o1 val (tabulate3 (d, f * hm, f * wm) g)
     = Inr (tabulate3 (d, f * hm, f * wm) (\<lambda>z y x.
         if y mod f = o0 \<and> x mod f = o1 then val ! z ! (y div f) ! (x div f) else g z y x))"
proof -
  have f: "0 < f" using o by simp
  have sh: "shape3 (tabulate3 (d, f * hm, f * wm) g) = (d, f * hm, f * wm)"
    using pos f by (intro shape3_tabulate3) simp_all
  have b: "broadcastable d d" "broadcastable hm (strided_len (f * hm) o0 f)"
    "broadcastable wm (strided_len (f * wm) o1 f)"
    using o by (simp_all add: broadcastable_def strided_len_exact)
  have "tabulate3 (d, f * hm, f * wm) (\<lambda>z y x.
           if o0 \<le> y \<and> (y - o0) mod f = 0 \<and> o1 \<le> x \<and> (x - o1) mod f = 0
           then val ! bidx d z ! bidx hm ((y - o0) div f) ! bidx wm ((x - o1) div f)
           else tabulate3 (d, f * hm, f * wm) g ! z ! y ! x)
      = tabulate3 (d, f * hm, f * wm) (\<lambda>z y x.
           if y mod f = o0 \<and> x mod f = o1 then val ! z ! (y div f) ! (x div f) else g z y x)"
  proof (rule tabulate3_cong)
    fix z y x assume r: "z < d" "y < f * hm" "x < f * wm"
    have dv: "y div f < hm" "x div f < wm"
      using r f by (simp_all add: less_mult_imp_div_less mult.commute)
    have c: "(o0 \<le> y \<and> (y - o0) mod f = 0 \<and> o1 \<le> x \<and> (x - o1) mod f = 0)
             = (y mod f = o0 \<and> x mod f = o1)"
      using stride_index(1) [OF o(1), of y] stride_index(1) [OF o(2), of x] by auto
    show "(if o0 \<le> y \<and> (y - o0) mod f = 0 \<and> o1 \<le> x \<and> (x - o1) mod f = 0
           then val ! bidx d z ! bidx hm ((y - o0) div f) ! bidx wm ((x - o1) div f)
           else tabulate3 (d, f * hm, f * wm) g ! z ! y ! x)
        = (if y mod f = o0 \<and> x mod f = o1 then val ! z ! (y div f) ! (x div f) else g z y x)"
      unfolding c
      using r dv stride_index(2) [OF o(1), of y] stride_index(2) [OF o(2), of x]
      by (simp add: tabulate3_nth bidx_in_range)
  qed
  with sh v b show ?thesis by (simp add: assign_strided_def)
qed

lemma upsample_loop_tabulate3:
  assumes v: "shape3 val = (d, hm, wm)" and pos: "0 < d" "0 < hm" "0 < wm"
    and o: "\<forall>(o0, o1)\<in>set offs. o0 < f \<and> o1 < f"
  shows "upsample_loop f offs val (tabulate3 (d, f * hm, f * wm) g)
     = Inr (tabulate3 (d, f * hm, f * wm) (\<lambda>z y x.
         if (y mod f, x mod f) \<in> set offs then val ! z ! (y div f) ! (x div f) else g z y x))"
  using o
proof (induction offs arbitrary: g)
  case Nil
  show ?case by simp
next
  case (Cons p offs)
  obtain o0 o1 where p: "p = (o0, o1)" by (cases p)
  with Cons.prems have lt: "o0 < f" "o1 < f" and rest: "\<forall>(o0, o1)\<in>set offs. o0 < f \<and> o1 < f"
    by auto
  have "(\<lambda>z y x. if (y mod f, x mod f) \<in> set offs then val ! z ! (y div f) ! (x div f)
                   else if y mod f = o0 \<and> x mod f = o1 then val ! z ! (y div f) ! (x div f)
                   else g z y x)
      = (\<lambda>z y x. if (y mod f, x mod f) \<in> set (p # offs) then val ! z ! (y div f) ! (x div f)
                   else g z y x)"
    by (auto simp: p fun_eq_iff)
  then show ?case
    using Cons.IH [OF rest] assign_strided_tabulate3 [OF v lt pos]
    by (simp add: p)
qed

text \<open>
  The upsampling replicates blocks: for a coarse mask of shape \<open>(d, hm, wm)\<close> and an output of
  shape \<open>(d, f hm, f wm)\<close> per channel the loop over the offsets succeeds, and the voxel
  \<open>(z, y, x)\<close> of the upsampled mask is the element \<open>(z, y div f, x div f)\<close> of the coarse mask.
\<close>

lemma upsample_mask_replicates_blocks:
  assumes "has_shape3 (d, hm, wm) coarse" and "0 < f" and "0 < d" "0 < hm" "0 < wm"
  shows "\<exists>msk. upsample_mask f coarse (d, f * hm, f * wm) = Inr msk
           \<and> has_shape3 (d, f * hm, f * wm) msk
           \<and> (\<forall>z<d. \<forall>y<f * hm. \<forall>x<f * wm. msk ! z ! y ! x = coarse ! z ! (y div f) ! (x div f))"
proof -
  have v: "shape3 coarse = (d, hm, wm)"
    using assms by (intro shape3_has_shape3)
  have o: "\<forall>(o0, o1)\<in>set (List.product [0..<f] [0..<f]). o0 < f \<and> o1 < f" by auto
  have all: "(y mod f, x mod f) \<in> set (List.product [0..<f] [0..<f])" for y x
    using \<open>0 < f\<close> by simp
  let ?m = "tabulate3 (d, f * hm, f * wm) (\<lambda>z y x. coarse ! z ! (y div f) ! (x div f))"
  have "upsample_mask f coarse (d, f * hm, f * wm) = Inr ?m"
    unfolding upsample_mask_def zeros3_tabulate3
    using upsample_loop_tabulate3 [OF v assms(3-5) o] \<open>0 < f\<close> by simp
  moreover have "has_shape3 (d, f * hm, f * wm) ?m"
    by (simp add: has_shape3_def tabulate3_def list_all_iff)
  moreover have "\<forall>z<d. \<forall>y<f * hm. \<forall>x<f * wm. ?m ! z ! y ! x = coarse ! z ! (y div f) ! (x div f)"
    by (simp add: tabulate3_nth)
  ultimately show ?thesis by blast
qed

section \<open>The channels that the masking multiplies\<close>

lemma multiply_channel_Inr:
  "multiply_channel c msk out = Inr out' \<Longrightarrow>
     c < length out \<and> out' = out[c := mul3 (out ! c) msk]"
  by (auto simp: multiply_channel_def split: if_splits)

text \<open>
  C10. When neither short cut applies (the coarse mask has a zero element and the output a
  nonzero one) and \<open>mask_output\<close> returns, the output has at least three channels, its
  channels 0, 1 and 2 are multiplied elementwise by the upsampled mask, and every channel
  from index 3 on is the channel of the input. With fewer than three channels the stage
  raises.
\<close>

theorem masking_multiplies_first_three_channels:
  assumes "\<not> np_all3 coarse" and "np_any4 out"
  shows "(length out < 3 \<longrightarrow> (\<exists>e. mask_output xf coarse out = Inl e))
   \<and> (\<forall>printed out'. mask_output xf coarse out = Inr (printed, out') \<longrightarrow>
        3 \<le> length out \<and> length out' = length out
        \<and> (\<forall>c. 3 \<le> c \<and> c < length out \<longrightarrow> out' ! c = out ! c)
        \<and> (\<exists>f msk. xf = Some f \<and> upsample_mask f coarse (shape3 (out ! 0)) = Inr msk
              \<and> (\<forall>c<3. out' ! c = mul3 (out ! c) msk)))"
proof -
  have main: "3 \<le> length out \<and> length out' = length out
        \<and> (\<forall>c. 3 \<le> c \<and> c < length out \<longrightarrow> out' ! c = out ! c)
        \<and> (\<exists>f msk. xf = Some f \<and> upsample_mask f coarse (shape3 (out ! 0)) = Inr msk
              \<and> (\<forall>c<3. out' ! c = mul3 (out ! c) msk))"
    if r: "mask_output xf coarse out = Inr (printed, out')" for printed out'
  proof -
    from assms(2) obtain ch rest where out: "out = ch # rest"
      by (cases out) (auto simp: np_any4_def)
    from r assms obtain f msk out0 out1 where
      xf: "xf = Some f" and
      up: "upsample_mask f coarse (shape3 ch) = Inr msk" and
      m0: "multiply_channel 0 msk out = Inr out0" and
      m1: "multiply_channel 1 msk out0 = Inr out1" and
      m2: "multiply_channel 2 msk out1 = Inr out'"
      by (auto simp: mask_output_def out split: option.splits sum.splits if_splits)
    from multiply_channel_Inr [OF m0]
    have a0: "0 < length out" "out0 = out[0 := mul3 (out ! 0) msk]"
      by simp_all
    from multiply_channel_Inr [OF m1]
    have a1: "1 < length out0" "out1 = out0[1 := mul3 (out0 ! 1) msk]"
      by simp_all
    from multiply_channel_Inr [OF m2]
    have a2: "2 < length out1" "out' = out1[2 := mul3 (out1 ! 2) msk]"
      by simp_all
    have len: "3 \<le> length out" using a0 a1 a2 by simp
    have eq: "out' = out[0 := mul3 (out ! 0) msk, 1 := mul3 (out ! 1) msk, 2 := mul3 (out ! 2) msk]"
      using a0 a1 a2 by simp
    have "\<forall>c<3. out' ! c = mul3 (out ! c) msk"
    proof (intro allI impI)
      fix c :: nat assume "c < 3"
      then consider "c = 0" | "c = 1" | "c = 2" by linarith
      moreover have "0 < length out" "1 < length out" "2 < length out"
        using a0 a1 a2 by simp_all
      ultimately show "out' ! c = mul3 (out ! c) msk"
        by cases (simp_all add: eq)
    qed
    moreover have "upsample_mask f coarse (shape3 (out ! 0)) = Inr msk"
      using up out by simp
    ultimately show ?thesis using len xf by (auto simp: eq)
  qed
  have "\<exists>e. mask_output xf coarse out = Inl e" if "length out < 3"
  proof (cases "mask_output xf coarse out")
    case (Inl e) then show ?thesis by blast
  next
    case (Inr p)
    then have "mask_output xf coarse out = Inr (fst p, snd p)" by simp
    from main [OF this] that show ?thesis by simp
  qed
  with main show ?thesis by blast
qed

theorem masking_multiplies_first_three_channels_witness:
  "\<not> np_all3 [[[1, 0 :: nat]]] \<and> np_any4 four_channels
   \<and> mask_output (Some 2) [[[1, 0]]] four_channels
       = Inr ([''perform masking ...'', ''upsampling mask ...''],
              replicate 3 [[[1, 2, 0, 0], [5, 6, 0, 0]]] @ [[[[1, 2, 3, 4], [5, 6, 7, 8]]]])
   \<and> four_channels ! 3 = [[[1, 2, 3, 4], [5, 6, 7, 8]]]
   \<and> length (take 2 four_channels) < 3
   \<and> (\<exists>e. mask_output (Some 2) [[[1, 0]]] (take 2 four_channels) = Inl e)"
proof -
  have h1: "\<not> np_all3 [[[1, 0 :: nat]]]" by (simp add: np_all3_def)
  have h2: "np_any4 four_channels" by code_simp
  have h3: "np_any4 (take 2 four_channels)" by code_simp
  have r: "mask_output (Some 2) [[[1, 0]]] four_channels
       = Inr ([''perform masking ...'', ''upsampling mask ...''],
              replicate 3 [[[1, 2, 0, 0], [5, 6, 0, 0]]] @ [[[[1, 2, 3, 4], [5, 6, 7, 8]]]])"
    by code_simp
  from masking_multiplies_first_three_channels [OF h1 h2, of "Some 2"] r
  have "3 \<le> length four_channels
      \<and> (replicate 3 [[[1, 2, 0, 0], [5, 6, 0, 0]]] @ [[[[1, 2, 3, 4], [5, 6, 7, 8]]]]) ! 3
          = four_channels ! 3"
    by simp
  then have "four_channels ! 3 = [[[1, 2, 3, 4], [5, 6, 7, 8]]]"
    by (simp add: nth_append)
  moreover from masking_multiplies_first_three_channels [OF h1 h3, of "Some 2"]
  have "\<exists>e. mask_output (Some 2) [[[1, 0]]] (take 2 four_channels) = Inl e"
    by (simp add: four_channels_def)
  ultimately show ?thesis using h1 h2 r by (simp add: four_channels_def)
qed

section \<open>The downsampling of the validation\<close>

lemma downsample_range_funpow:
  "downsample_range ds n img = ((\<lambda>a. ds a (2, 2, 1)) ^^ n) img"
proof (induction n arbitrary: img)
  case 0
  show ?case by simp
next
  case (Suc n)
  have "((\<lambda>a. ds a (2, 2, 1)) ^^ Suc n) img = ((\<lambda>a. ds a (2, 2, 1)) ^^ n) (ds img (2, 2, 1))"
    by (simp only: funpow_Suc_right comp_apply)
  with Suc show ?case by (simp only: downsample_range.simps)
qed

lemma transpose3_reverses:
  "shape3 c = (d, h, wd) \<Longrightarrow> transpose3 c = tabulate3 (wd, h, d) (\<lambda>x y z. c ! z ! y ! x)"
  by (simp add: transpose3_def)

lemma cdiv_pos: "0 < n \<Longrightarrow> 0 < f \<Longrightarrow> 0 < cdiv n f"
  by (simp add: cdiv_def div_greater_zero_iff)

lemma cdiv_one: "cdiv n 1 = n" "cdiv n (Suc 0) = n"
  by (simp_all add: cdiv_def)

lemma cdiv_cdiv:
  assumes "0 < a" and "0 < b"
  shows "cdiv (cdiv n a) b = cdiv n (a * b)"
proof -
  let ?m = "n + a - 1"
  have e: "n + a * b - 1 = ?m + a * (b - 1)"
    using assms by (cases b) (simp_all add: algebra_simps)
  have "(n + a * b - 1) div (a * b) = (?m + a * (b - 1)) div a div b"
    unfolding e by (simp only: div_mult2_eq)
  also have "(?m + a * (b - 1)) div a = (b - 1) + ?m div a"
    using assms by (simp only: div_mult_self2)
  also have "(b - 1) + ?m div a = ?m div a + b - 1"
    using assms by simp
  finally show ?thesis by (simp only: cdiv_def)
qed

lemma shape3_box_average:
  assumes "shape3 a = (n0, n1, n2)" and "0 < n0" and "0 < n1"
  shows "shape3 (box_average a (2, 2, 1)) = (cdiv n0 2, cdiv n1 2, n2)"
  using assms by (simp add: box_average_def shape3_tabulate3 cdiv_pos cdiv_one)

lemma shape3_box_average_funpow:
  assumes "shape3 a = (n0, n1, n2)" and "0 < n0" and "0 < n1"
  shows "shape3 (((\<lambda>a. box_average a (2, 2, 1)) ^^ n) a) = (cdiv n0 (2 ^ n), cdiv n1 (2 ^ n), n2)"
proof (induction n)
  case 0
  with assms show ?case by (simp add: cdiv_one)
next
  case (Suc n)
  have p: "0 < cdiv n0 (2 ^ n)" "0 < cdiv n1 (2 ^ n)"
    using assms by (simp_all add: cdiv_pos)
  have "cdiv (cdiv n0 (2 ^ n)) 2 = cdiv n0 (2 ^ Suc n)" "cdiv (cdiv n1 (2 ^ n)) 2 = cdiv n1 (2 ^ Suc n)"
    by (simp_all add: cdiv_cdiv mult.commute)
  with shape3_box_average [OF Suc p] show ?case by simp
qed

text \<open>One step of the box average by (2, 2, 1) reads each voxel from its own depth.\<close>

lemma box_average_depth:
  assumes "shape3 a = (n0, n1, n2)" and "i < cdiv n0 2" and "j < cdiv n1 2" and "k < n2"
  shows "box_average a (2, 2, 1) ! i ! j ! k
    = sum_list (concat (map (\<lambda>x. map (\<lambda>y. a ! x ! y ! k) (box j 2 n1)) (box i 2 n0)))
      div length (concat (map (\<lambda>x. map (\<lambda>y. a ! x ! y ! k) (box j 2 n1)) (box i 2 n0)))"
proof -
  have b: "box k (Suc 0) n2 = [k]" using assms(4) by (simp add: box_def min_def upt_conv_Cons)
  have c: "concat (map (\<lambda>y. [f y]) ys) = map f ys" for f :: "nat \<Rightarrow> nat" and ys
    by (induction ys) simp_all
  show ?thesis
    using assms by (simp add: box_average_def tabulate3_nth cdiv_one b c Let_def)
qed

text \<open>
  C8. The image that \<open>_validate_image\<close> compares is the clamped cutout, whose axes
  \<open>np.transpose\<close> reverses from z,y,x to x,y,z order, to which \<open>downsample_with_averaging\<close>
  has been applied with the factor \<open>(2, 2, 1)\<close> exactly \<open>image_validate_mip - image_mip\<close>
  times, one after the other: the factor 2 meets the two lateral axes at each step and
  the factor 1 the depth axis. With the box average for \<open>downsample_with_averaging\<close>,
  the result has the lateral extents of the cutout divided by 2 to the power of the number
  of steps, rounded up, and the depth of the cutout. In the example of two steps the
  result differs from the one downsample by \<open>(4, 4, 1)\<close>.
\<close>

theorem validation_downsamples_by_repeated_halving:
  assumes "cutout (clamped_slices w ex vmip img) img = Inr c" and "shape3 c = (d, h, wd)"
  shows "clamped_image w ex vmip img
     = Inr (((\<lambda>a. downsample_with_averaging w a (2, 2, 1)) ^^ nat (vmip - image_mip ex))
             (tabulate3 (wd, h, d) (\<lambda>x y z. c ! z ! y ! x)))
   \<and> (downsample_with_averaging w = box_average \<and> 0 < d \<and> 0 < h \<and> 0 < wd \<longrightarrow>
        (\<exists>r. clamped_image w ex vmip img = Inr r
           \<and> shape3 r = (cdiv wd (2 ^ nat (vmip - image_mip ex)),
                          cdiv h (2 ^ nat (vmip - image_mip ex)), d)))"
proof -
  let ?n = "nat (vmip - image_mip ex)"
  let ?t = "tabulate3 (wd, h, d) (\<lambda>x y z. c ! z ! y ! x)"
  have a: "clamped_image w ex vmip img
     = Inr (((\<lambda>a. downsample_with_averaging w a (2, 2, 1)) ^^ ?n) ?t)"
    using assms
    by (simp add: clamped_image_def downsample_to_mip_def downsample_range_funpow
        transpose3_reverses)
  have "shape3 (((\<lambda>a. box_average a (2, 2, 1)) ^^ ?n) ?t) = (cdiv wd (2 ^ ?n), cdiv h (2 ^ ?n), d)"
    if "0 < d" "0 < h" "0 < wd"
    using that by (intro shape3_box_average_funpow shape3_tabulate3)
  with a show ?thesis by auto
qed

theorem validation_downsamples_by_repeated_halving_witness:
  "cutout (clamped_slices box_world deep_executor 2 (OffsetArray deep_image (0, 0, 0)))
      (OffsetArray deep_image (0, 0, 0))
      = Inr [[[1, 1, 1, 1], [1, 0, 1, 0], [1, 1, 2, 2], [1, 0, 2, 1]], [[0, 0, 4, 4], [0, 0, 4, 4], [0, 0, 0, 0], [0, 0, 0, 0]]]
   \<and> shape3 [[[1, 1, 1, 1], [1, 0, 1, 0], [1, 1, 2, 2], [1, 0, 2, 1]], [[0, 0, 4, 4], [0, 0, 4, 4], [0, 0, 0, 0], [0, 0, 0, 0 :: nat]]] = (2, 4, 4)
   \<and> downsample_with_averaging box_world = box_average
   \<and> nat (2 - image_mip deep_executor) = 2
   \<and> tabulate3 (4, 4, 2)
        (\<lambda>x y z. [[[1, 1, 1, 1], [1, 0, 1, 0], [1, 1, 2, 2], [1, 0, 2, 1]], [[0, 0, 4, 4], [0, 0, 4, 4], [0, 0, 0, 0], [0, 0, 0, 0 :: nat]]] ! z ! y ! x)
      = [[[1, 0], [1, 0], [1, 0], [1, 0]], [[1, 0], [0, 0], [1, 0], [0, 0]], [[1, 4], [1, 4], [2, 0], [2, 0]], [[1, 4], [0, 4], [2, 0], [1, 0]]]
   \<and> clamped_image box_world deep_executor 2 (OffsetArray deep_image (0, 0, 0))
      = Inr (box_average (box_average
          [[[1, 0], [1, 0], [1, 0], [1, 0]], [[1, 0], [0, 0], [1, 0], [0, 0]], [[1, 4], [1, 4], [2, 0], [2, 0]], [[1, 4], [0, 4], [2, 0], [1, 0]]]
          (2, 2, 1)) (2, 2, 1))
   \<and> box_average
          [[[1, 0], [1, 0], [1, 0], [1, 0]], [[1, 0], [0, 0], [1, 0], [0, 0]], [[1, 4], [1, 4], [2, 0], [2, 0]], [[1, 4], [0, 4], [2, 0], [1, 0]]]
          (2, 2, 1) = [[[0, 0], [0, 0]], [[0, 4], [1, 0]]]
   \<and> clamped_image box_world deep_executor 2 (OffsetArray deep_image (0, 0, 0)) = Inr [[[0, 1]]]
   \<and> shape3 [[[0, 1 :: nat]]] = (cdiv 4 (2 ^ 2), cdiv 4 (2 ^ 2), 2)
   \<and> box_average
          [[[1, 0], [1, 0], [1, 0], [1, 0]], [[1, 0], [0, 0], [1, 0], [0, 0]], [[1, 4], [1, 4], [2, 0], [2, 0]], [[1, 4], [0, 4], [2, 0], [1, 0]]]
          (4, 4, 1) = [[[1, 1]]]"
proof -
  let ?c = "[[[1, 1, 1, 1], [1, 0, 1, 0], [1, 1, 2, 2], [1, 0, 2, 1]], [[0, 0, 4, 4], [0, 0, 4, 4], [0, 0, 0, 0], [0, 0, 0, 0 :: nat]]]"
  let ?t = "[[[1, 0], [1, 0], [1, 0], [1, 0]], [[1, 0], [0, 0], [1, 0], [0, 0]], [[1, 4], [1, 4], [2, 0], [2, 0]], [[1, 4], [0, 4], [2, 0], [1, 0 :: nat]]]"
  have h1: "cutout (clamped_slices box_world deep_executor 2 (OffsetArray deep_image (0, 0, 0)))
      (OffsetArray deep_image (0, 0, 0)) = Inr ?c"
    by code_simp
  have h2: "shape3 ?c = (2, 4, 4)" by (simp add: shape3_def)
  have h3: "downsample_with_averaging box_world = box_average"
    by (simp add: box_world_def demo_world_def)
  have n: "nat (2 - image_mip deep_executor) = 2"
    by (simp add: deep_executor_def demo_executor_def)
  have t: "tabulate3 (4, 4, 2) (\<lambda>x y z. ?c ! z ! y ! x) = ?t" by code_simp
  have s1: "box_average ?t (2, 2, 1) = [[[0, 0], [0, 0]], [[0, 4], [1, 0]]]" by code_simp
  have s2: "box_average [[[0, 0], [0, 0]], [[0, 4], [1, 0]]] (2, 2, 1) = [[[0, 1]]]" by code_simp
  have big: "box_average ?t (4, 4, 1) = [[[1, 1]]]" by code_simp
  have two: "(f ^^ 2) x = f (f x)" for f :: "nat arr3 \<Rightarrow> nat arr3" and x
    by (simp add: numeral_2_eq_2)
  note main = validation_downsamples_by_repeated_halving [OF h1 h2]
  from main have "clamped_image box_world deep_executor 2 (OffsetArray deep_image (0, 0, 0))
      = Inr (((\<lambda>a. downsample_with_averaging box_world a (2, 2, 1))
               ^^ nat (2 - image_mip deep_executor))
              (tabulate3 (4, 4, 2) (\<lambda>x y z. ?c ! z ! y ! x)))"
    by (rule conjunct1)
  then have e: "clamped_image box_world deep_executor 2 (OffsetArray deep_image (0, 0, 0))
      = Inr (box_average (box_average ?t (2, 2, 1)) (2, 2, 1))"
    by (simp only: h3 n t two)
  from main h3 obtain r where
    "clamped_image box_world deep_executor 2 (OffsetArray deep_image (0, 0, 0)) = Inr r"
    "shape3 r = (cdiv 4 (2 ^ nat (2 - image_mip deep_executor)),
                 cdiv 4 (2 ^ nat (2 - image_mip deep_executor)), 2)"
    by auto
  with e s1 s2 n have sh: "shape3 [[[0, 1 :: nat]]] = (cdiv 4 (2 ^ 2), cdiv 4 (2 ^ 2), 2)"
    by simp
  from e s1 s2 have v: "clamped_image box_world deep_executor 2 (OffsetArray deep_image (0, 0, 0))
      = Inr [[[0, 1]]]"
    by simp
  show ?thesis
    using h1 h2 h3 n t e s1 v sh big by (intro conjI)
qed

section \<open>The calls of an invocation\<close>

lemma stays_in_then:
  assumes f: "stays_in f XS" and g: "stays_in g YS"
  shows "stays_in (\<lambda>s. then_stage (f s) g) {xs @ ys | xs ys. xs \<in> XS \<and> ys \<in> YS}"
  unfolding stays_in_def
proof (intro allI)
  fix s
  from f obtain xs where xs: "xs \<in> XS"
    and fx: "case f s of Done s' \<Rightarrow> calls s' = calls s @ xs
             | Raised e s' \<Rightarrow> (\<exists>n. calls s' = calls s @ take n xs)"
    unfolding stays_in_def by blast
  show "\<exists>zs\<in>{xs @ ys | xs ys. xs \<in> XS \<and> ys \<in> YS}.
          case then_stage (f s) g of Done s' \<Rightarrow> calls s' = calls s @ zs
          | Raised e s' \<Rightarrow> (\<exists>n. calls s' = calls s @ take n zs)"
  proof (cases "f s")
    case (Done s1)
    with fx have c1: "calls s1 = calls s @ xs" by simp
    from g obtain ys where ys: "ys \<in> YS"
      and gy: "case g s1 of Done s' \<Rightarrow> calls s' = calls s1 @ ys
               | Raised e s' \<Rightarrow> (\<exists>n. calls s' = calls s1 @ take n ys)"
      unfolding stays_in_def by blast
    have "case then_stage (f s) g of Done s' \<Rightarrow> calls s' = calls s @ (xs @ ys)
          | Raised e s' \<Rightarrow> (\<exists>n. calls s' = calls s @ take n (xs @ ys))"
    proof (cases "g s1")
      case (Done s2)
      with gy c1 \<open>f s = Done s1\<close> show ?thesis by (simp add: then_stage_def)
    next
      case (Raised e s2)
      with gy obtain n where "calls s2 = calls s1 @ take n ys" by auto
      then have "calls s2 = calls s @ take (length xs + n) (xs @ ys)" using c1 by simp
      then have "\<exists>k. calls s2 = calls s @ take k (xs @ ys)" by (rule exI)
      with Raised \<open>f s = Done s1\<close> show ?thesis by (simp add: then_stage_def)
    qed
    with xs ys show ?thesis by blast
  next
    case (Raised e s1)
    with fx obtain n where n: "calls s1 = calls s @ take n xs" by auto
    from g obtain ys where ys: "ys \<in> YS" unfolding stays_in_def by blast
    have "take n xs = take (min n (length xs)) (xs @ ys)" by (simp add: min_def)
    with n have "calls s1 = calls s @ take (min n (length xs)) (xs @ ys)" by simp
    then have "\<exists>k. calls s1 = calls s @ take k (xs @ ys)" by (rule exI)
    with Raised have "case then_stage (f s) g of Done s' \<Rightarrow> calls s' = calls s @ (xs @ ys)
          | Raised e s' \<Rightarrow> (\<exists>n. calls s' = calls s @ take n (xs @ ys))"
      by (simp add: then_stage_def)
    with xs ys show ?thesis by blast
  qed
qed

lemma stays_in_timed: "stays_in f XS \<Longrightarrow> stays_in (timed k f) XS"
  unfolding stays_in_def timed_def then_stage_def
  by (auto split: outcome.splits) (metis outcome.simps(5,6))+


lemma stays_in_mono: "stays_in f XS \<Longrightarrow> XS \<subseteq> YS \<Longrightarrow> stays_in f YS"
  unfolding stays_in_def by blast

lemma stays_in_final:
  assumes "\<And>s. \<exists>xs\<in>XS. calls (final (f s)) = calls s @ xs"
  shows "stays_in f XS"
  unfolding stays_in_def
proof (intro allI)
  fix s
  from assms obtain xs where xs: "xs \<in> XS" and c: "calls (final (f s)) = calls s @ xs"
    by blast
  have "case f s of Done s' \<Rightarrow> calls s' = calls s @ xs
        | Raised e s' \<Rightarrow> (\<exists>n. calls s' = calls s @ take n xs)"
  proof (cases "f s")
    case (Done s')
    with c show ?thesis by (simp add: final_def)
  next
    case (Raised e s')
    with c have "calls s' = calls s @ take (length xs) xs" by (simp add: final_def)
    then have "\<exists>n. calls s' = calls s @ take n xs" by (rule exI)
    with Raised show ?thesis by simp
  qed
  with xs show "\<exists>xs\<in>XS. case f s of Done s' \<Rightarrow> calls s' = calls s @ xs
        | Raised e s' \<Rightarrow> (\<exists>n. calls s' = calls s @ take n xs)"
    by blast
qed

lemma calls_read_output_mask:
  "calls (final (read_output_mask w ex s)) = calls s @ [ReadOutputMask]"
  by (simp add: read_output_mask_def enter_def final_def Let_def
      split: sum.splits list.splits)

lemma calls_read_image:
  "calls (final (read_image w ex b s)) = calls s @ [ReadImage]"
  by (simp add: read_image_def enter_def final_def Let_def
      split: sum.splits list.splits prod.splits)

lemma calls_upload_log:
  "calls (final (upload_log w b p s)) = calls s @ [UploadLog p (to_filename w b)]"
  by (simp add: upload_log_def enter_def final_def Let_def split: option.splits)

lemma calls_check_against_volume:
  "calls (final (check_against_volume w ci s)) = calls s"
  by (simp add: check_against_volume_def final_def split: sum.splits)

lemma final_then_stage:
  "final (then_stage r f) = (case r of Done s \<Rightarrow> final (f s) | Raised e s \<Rightarrow> s)"
  by (simp add: then_stage_def final_def split: outcome.splits)

lemma final_simps: "final (Done s) = s" "final (Raised e s) = s"
  by (simp_all add: final_def)

lemma then_stage_Done: "then_stage (Done s) f = f s"
  by (simp add: then_stage_def)

lemma then_stage_Raised: "then_stage (Raised e s) f = Raised e s"
  by (simp add: then_stage_def)

lemma calls_validate_image:
  "calls (final (validate_image w ex b s)) = calls s @ [ValidateImage]
   \<or> calls (final (validate_image w ex b s))
       = calls s @ [ValidateImage, UploadLog (path_join (output_layer_path ex) ''error'') (to_filename w b)]"
proof -
  have u: "calls (final (then_stage (upload_log w b p s') (check_against_volume w ci)))
           = calls s' @ [UploadLog p (to_filename w b)]" for p s' ci
    using calls_upload_log [of w b p s']
    by (cases "upload_log w b p s'")
       (simp_all add: then_stage_Done then_stage_Raised calls_check_against_volume final_simps)
  have e: "calls (enter ValidateImage s) = calls s @ [ValidateImage]"
    by (simp add: enter_def)
  show ?thesis
  proof (cases "image_validate_mip ex")
    case None
    then show ?thesis by (simp add: validate_image_def Let_def e final_def)
  next
    case (Some vmip)
    show ?thesis
    proof (cases "image (enter ValidateImage s)")
      case None
      with Some show ?thesis by (simp add: validate_image_def Let_def e final_def)
    next
      case img: (Some img)
      show ?thesis
      proof (cases "clamped_image w ex vmip img")
        case (Inl err)
        with Some img show ?thesis by (simp add: validate_image_def Let_def e final_def)
      next
        case (Inr ci)
        show ?thesis
        proof (cases "validate_by_template_matching w ci")
          case True
          with Some img Inr show ?thesis
            by (simp add: validate_image_def Let_def e then_stage_Done calls_check_against_volume)
        next
          case False
          with Some img Inr show ?thesis
            by (simp add: validate_image_def Let_def e u)
        qed
      qed
    qed
  qed
qed

lemma calls_mask_missing_sections_stage:
  "calls (final (mask_missing_sections_stage w ex s)) = calls s @ [MaskMissingSections]"
  by (simp add: mask_missing_sections_stage_def enter_def final_def Let_def
      split: sum.splits option.splits)

lemma calls_inference:
  "calls (final (inference w s)) = calls s @ [Inference]"
  by (simp add: inference_def enter_def final_def Let_def split: sum.splits option.splits)

lemma calls_crop_stage:
  "calls (final (crop_stage ex s)) = calls s @ [Crop]"
  by (simp add: crop_stage_def enter_def final_def Let_def split: option.splits)

lemma calls_mask_output_stage:
  "calls (final (mask_output_stage s)) = calls s @ [MaskOutput]"
  by (simp add: mask_output_stage_def enter_def final_def Let_def
      split: sum.splits option.splits prod.splits)

lemma calls_upload_output:
  "calls (final (upload_output w s)) = calls s @ [UploadOutput]"
  by (simp add: upload_output_def enter_def final_def Let_def split: option.splits)

lemma calls_create_output_thumbnail:
  "calls (final (create_output_thumbnail w s)) = calls s @ [CreateOutputThumbnail]"
  by (simp add: create_output_thumbnail_def enter_def final_def Let_def split: option.splits)

lemma calls_timed: "calls (final (timed k f s)) = calls (final (f s))"
  by (simp add: timed_def then_stage_def final_def split: outcome.splits)

lemma calls_mask_if_present:
  "calls (final (mask_if_present s)) = calls s
   \<or> calls (final (mask_if_present s)) = calls s @ [MaskOutput]"
  by (simp add: mask_if_present_def calls_timed calls_mask_output_stage
      split: sum.splits bool.splits) (simp add: final_def)

lemma stays_in_if:
  assumes "stays_in r RS"
  shows "stays_in (\<lambda>s. if P s then Done s else r s) (insert [] RS)"
  unfolding stays_in_def
proof (intro allI)
  fix s
  show "\<exists>xs\<in>insert [] RS. case if P s then Done s else r s of
          Done s' \<Rightarrow> calls s' = calls s @ xs
        | Raised e s' \<Rightarrow> (\<exists>n. calls s' = calls s @ take n xs)"
  proof (cases "P s")
    case True
    then show ?thesis by simp
  next
    case False
    with assms show ?thesis unfolding stays_in_def by auto
  qed
qed

lemma seq_single:
  "{xs @ ys | xs ys. xs \<in> {a} \<and> ys \<in> YS} = (\<lambda>ys. a @ ys) ` YS"
  by auto

lemma seq_pair:
  "{xs @ ys | xs ys. xs \<in> {a, b} \<and> ys \<in> YS} = (\<lambda>ys. a @ ys) ` YS \<union> (\<lambda>ys. b @ ys) ` YS"
  by auto

lemma stays_in_run_after_mask:
  "stays_in (run_after_mask w ex b)
     {tl (pipeline (output_layer_path ex) (to_filename w b) False False),
      tl (pipeline (output_layer_path ex) (to_filename w b) False True),
      tl (pipeline (output_layer_path ex) (to_filename w b) True False),
      tl (pipeline (output_layer_path ex) (to_filename w b) True True)}"
proof -
  let ?err = "UploadLog (path_join (output_layer_path ex) ''error'') (to_filename w b)"
  let ?log = "UploadLog (path_join (output_layer_path ex) ''log'') (to_filename w b)"
  have ri: "stays_in (timed ''read_image'' (read_image w ex b)) {[ReadImage]}"
    by (rule stays_in_timed, rule stays_in_final) (simp add: calls_read_image)
  have vi: "stays_in (timed ''validate_image'' (validate_image w ex b))
              {[ValidateImage], [ValidateImage, ?err]}"
    by (rule stays_in_timed, rule stays_in_final) (use calls_validate_image in auto)
  have mm: "stays_in (timed ''mask_missing_sections'' (mask_missing_sections_stage w ex))
              {[MaskMissingSections]}"
    by (rule stays_in_timed, rule stays_in_final) (simp add: calls_mask_missing_sections_stage)
  have inf: "stays_in (timed ''_inference'' (inference w)) {[Inference]}"
    by (rule stays_in_timed, rule stays_in_final) (simp add: calls_inference)
  have cr: "stays_in (timed ''crop_output'' (crop_stage ex)) {[Crop]}"
    by (rule stays_in_timed, rule stays_in_final) (simp add: calls_crop_stage)
  have mo: "stays_in mask_if_present {[], [MaskOutput]}"
    by (rule stays_in_final) (use calls_mask_if_present in auto)
  have uo: "stays_in (timed ''upload_output'' (upload_output w)) {[UploadOutput]}"
    by (rule stays_in_timed, rule stays_in_final) (simp add: calls_upload_output)
  have th: "stays_in (timed ''create_output_thumbnail'' (create_output_thumbnail w))
              {[CreateOutputThumbnail]}"
    by (rule stays_in_timed, rule stays_in_final) (simp add: calls_create_output_thumbnail)
  have ul: "stays_in (\<lambda>s9. upload_log w b (path_join (output_layer_path ex) ''log'')
                (s9\<lparr>log := log s9 @ [''total_time'']\<rparr>)) {[?log]}"
    by (rule stays_in_final) (simp add: calls_upload_log)
  note chain = stays_in_then [OF ri stays_in_then [OF vi stays_in_then [OF mm
     stays_in_then [OF inf stays_in_then [OF cr stays_in_then [OF mo
     stays_in_then [OF uo stays_in_then [OF th ul]]]]]]]]
  have eq: "run_after_mask w ex b = (\<lambda>s1.
     then_stage (timed ''read_image'' (read_image w ex b) s1) (\<lambda>s2.
     then_stage (timed ''validate_image'' (validate_image w ex b) s2) (\<lambda>s3.
     then_stage (timed ''mask_missing_sections'' (mask_missing_sections_stage w ex) s3) (\<lambda>s4.
     then_stage (timed ''_inference'' (inference w) s4) (\<lambda>s5.
     then_stage (timed ''crop_output'' (crop_stage ex) s5) (\<lambda>s6.
     then_stage (mask_if_present s6) (\<lambda>s7.
     then_stage (timed ''upload_output'' (upload_output w) s7) (\<lambda>s8.
     then_stage (timed ''create_output_thumbnail'' (create_output_thumbnail w) s8) (\<lambda>s9.
       upload_log w b (path_join (output_layer_path ex) ''log'')
         (s9\<lparr>log := log s9 @ [''total_time'']\<rparr>))))))))))"
    by (rule ext) (simp add: run_after_mask_def)
  show ?thesis
    unfolding eq
    by (rule stays_in_mono [OF chain [unfolded seq_single seq_pair]])
       (simp add: pipeline_def image_Un)
qed

lemma call_trace:
  "\<exists>v m. (case call w ex b of
       Done s \<Rightarrow> calls s = [ReadOutputMask]
                 \<or> calls s = pipeline (output_layer_path ex) (to_filename w b) v m
     | Raised e s \<Rightarrow>
         (\<exists>n. calls s = take n (pipeline (output_layer_path ex) (to_filename w b) v m)))"
proof -
  let ?P = "pipeline (output_layer_path ex) (to_filename w b)"
  let ?Q = "\<lambda>v m. case call w ex b of
       Done s \<Rightarrow> calls s = [ReadOutputMask] \<or> calls s = ?P v m
     | Raised e s \<Rightarrow> (\<exists>n. calls s = take n (?P v m))"
  have rom: "stays_in (timed ''read_output_mask'' (read_output_mask w ex)) {[ReadOutputMask]}"
    by (rule stays_in_timed, rule stays_in_final) (simp add: calls_read_output_mask)
  note c = stays_in_then [OF rom stays_in_if [OF stays_in_run_after_mask,
        of "\<lambda>s1. mask_is_black (output_mask s1)" w ex b], unfolded seq_single]
  have eq: "call w ex b = (\<lambda>s. then_stage (timed ''read_output_mask'' (read_output_mask w ex) s)
       (\<lambda>s1. if mask_is_black (output_mask s1) then Done s1 else run_after_mask w ex b s1)) fresh"
    by (simp add: call_def)
  have hd: "[ReadOutputMask] @ tl (?P v m) = ?P v m" for v m
    by (simp add: pipeline_def)
  from c [unfolded stays_in_def, rule_format, of fresh, folded eq]
  obtain zs where zs: "zs = [ReadOutputMask] \<or> zs = ?P False False \<or> zs = ?P False True
        \<or> zs = ?P True False \<or> zs = ?P True True"
    and r: "case call w ex b of Done s' \<Rightarrow> calls s' = calls fresh @ zs
            | Raised e s' \<Rightarrow> (\<exists>n. calls s' = calls fresh @ take n zs)"
    unfolding hd image_insert image_empty by auto
  have f: "calls fresh = []" by (simp add: fresh_def)
  have full: "?Q v m" if "zs = ?P v m" for v m
    using r that f by (cases "call w ex b") simp_all
  have short: "?Q False False" if z: "zs = [ReadOutputMask]"
  proof (cases "call w ex b")
    case (Done s)
    with r z f show ?thesis by simp
  next
    case (Raised e s)
    with r z f obtain n where "calls s = take n [ReadOutputMask]" by auto
    moreover have "take n [ReadOutputMask] = take (min n 1) (?P False False)"
      by (cases n) (simp_all add: pipeline_def)
    ultimately have "\<exists>k. calls s = take k (?P False False)" by metis
    with Raised show ?thesis by simp
  qed
  from zs full short show ?thesis by blast
qed

section \<open>The uploads of the log\<close>

lemma path_join_error_log:
  "path_join d ''error'' \<noteq> path_join d ''log''"
  by (simp add: path_join_def)


lemma trace_uploads:
  assumes "c = take n (pipeline d f v m)"
  shows "log_uploads c \<in> {[], [(path_join d ''error'', f)], [(path_join d ''log'', f)],
            [(path_join d ''error'', f), (path_join d ''log'', f)]}"
    and "(path_join d ''log'', f) \<in> set (log_uploads c) \<Longrightarrow>
           c = pipeline d f v m \<and> last c = UploadLog (path_join d ''log'') f"
    and "(path_join d ''error'', f) \<in> set (log_uploads c) \<Longrightarrow>
           take 4 c = [ReadOutputMask, ReadImage, ValidateImage,
                       UploadLog (path_join d ''error'') f]"
  using assms path_join_error_log [of d]
  by (cases v; cases m; auto simp: pipeline_def take_Cons split: nat.splits)+

text \<open>
  C3, as the code has it. In one invocation the log is uploaded at most twice: at most once
  to the error path, as the call that follows \<open>_validate_image\<close> (the fourth call of the
  invocation), and at most once to the log path, as the last call of an invocation that
  has run every stage. Both uploads happen in an invocation whose template matching fails
  and whose stages all succeed; an invocation that raises before its end, or that returns
  early on a black mask, does not upload to the log path.
\<close>

theorem log_uploads_of_an_invocation:
  "log_uploads (calls (final (call w ex b)))
     \<in> {[], [(path_join (output_layer_path ex) ''error'', to_filename w b)],
         [(path_join (output_layer_path ex) ''log'', to_filename w b)],
         [(path_join (output_layer_path ex) ''error'', to_filename w b),
          (path_join (output_layer_path ex) ''log'', to_filename w b)]}
   \<and> ((path_join (output_layer_path ex) ''log'', to_filename w b)
          \<in> set (log_uploads (calls (final (call w ex b)))) \<longrightarrow>
        (\<exists>v m. calls (final (call w ex b)) = pipeline (output_layer_path ex) (to_filename w b) v m)
        \<and> last (calls (final (call w ex b)))
            = UploadLog (path_join (output_layer_path ex) ''log'') (to_filename w b))
   \<and> ((path_join (output_layer_path ex) ''error'', to_filename w b)
          \<in> set (log_uploads (calls (final (call w ex b)))) \<longrightarrow>
        take 4 (calls (final (call w ex b)))
          = [ReadOutputMask, ReadImage, ValidateImage,
             UploadLog (path_join (output_layer_path ex) ''error'') (to_filename w b)])"
proof -
  let ?P = "pipeline (output_layer_path ex) (to_filename w b)"
  from call_trace [where w = w and ex = ex and b = b] obtain v m where
    t: "case call w ex b of
          Done s \<Rightarrow> calls s = [ReadOutputMask] \<or> calls s = ?P v m
        | Raised e s \<Rightarrow> (\<exists>n. calls s = take n (?P v m))"
    by blast
  have one: "[ReadOutputMask] = take 1 (?P v m)" by (simp add: pipeline_def)
  have "\<exists>n. calls (final (call w ex b)) = take n (?P v m)"
  proof (cases "call w ex b")
    case (Done s)
    with t have "calls s = take 1 (?P v m) \<or> calls s = take (length (?P v m)) (?P v m)"
      using one by simp
    then have "\<exists>n. calls s = take n (?P v m)" by blast
    with Done show ?thesis by (simp add: final_simps)
  next
    case (Raised e s)
    with t show ?thesis by (simp add: final_simps)
  qed
  then obtain n where "calls (final (call w ex b)) = take n (?P v m)" ..
  from trace_uploads [OF this] show ?thesis by blast
qed

theorem log_uploads_of_an_invocation_witness:
  "(''gs://out/log'', ''0-2_0-4_0-4'')
     \<in> set (log_uploads (calls (final (call demo_world demo_executor demo_bbox))))
   \<and> last (calls (final (call demo_world demo_executor demo_bbox)))
       = UploadLog ''gs://out/log'' ''0-2_0-4_0-4''
   \<and> (''gs://out/error'', ''0-2_0-4_0-4'')
     \<in> set (log_uploads (calls (final (call demo_world demo_executor demo_bbox))))
   \<and> take 4 (calls (final (call demo_world demo_executor demo_bbox)))
       = [ReadOutputMask, ReadImage, ValidateImage, UploadLog ''gs://out/error'' ''0-2_0-4_0-4'']"
proof -
  have e: "log_uploads (calls (final (call demo_world demo_executor demo_bbox)))
     = [(''gs://out/error'', ''0-2_0-4_0-4''), (''gs://out/log'', ''0-2_0-4_0-4'')]"
    by code_simp
  have p: "path_join (output_layer_path demo_executor) ''error'' = ''gs://out/error''"
    "path_join (output_layer_path demo_executor) ''log'' = ''gs://out/log''"
    "to_filename demo_world demo_bbox = ''0-2_0-4_0-4''"
    by (simp_all add: demo_executor_def demo_world_def path_join_def)
  from log_uploads_of_an_invocation [of demo_world demo_executor demo_bbox] e
  show ?thesis by (simp add: p)
qed

theorem log_uploaded_twice_counterexample:
  "log_uploads (calls (final (call demo_world demo_executor demo_bbox)))
     = [(''gs://out/error'', ''0-2_0-4_0-4''), (''gs://out/log'', ''0-2_0-4_0-4'')]"
  by code_simp

section \<open>The invocation after a failure of the template matching\<close>


lemma inserted_end: "inserted (length xs) x xs = xs @ [x]"
  by (simp add: inserted_def)

lemma length_inserted: "length (inserted k x xs) = Suc (length xs)"
  by (simp add: inserted_def)































end
